theory Spec2Isabelle
  imports Main "HOL-Library.Word"
begin

section \<open>The hash collection of KVDK: records, index, list and write path\<close>

text \<open>
  The development follows \<^verbatim>\<open>hash_list.hpp\<close>, \<^verbatim>\<open>hash_list.cpp\<close> and
  \<^verbatim>\<open>old_records_cleaner.cpp\<close>. Functions of these files are translated branch by branch.
  The collaborators they call (allocator, hash index, doubly linked list, version controller,
  the assertion macro) live in other files; they are modelled from their contracts and each
  such definition says so.
\<close>

subsection \<open>Enumerations and plain data\<close>

type_synonym addr = "64 word"
type_synonym TimestampType = "64 word"
type_synonym ExpireTimeType = int
type_synonym CollectionIDType = "64 word"

datatype Status = Ok | NotFound | Abort | Fail | InvalidArgument | MemoryOverflow

text \<open>The record types named in the sources; \<open>OtherRecordType\<close> is any other enumerator.\<close>

datatype RecordType =
    HashElem | HashHeader
  | StringDataRecord | StringDeleteRecord
  | SortedDataRecord | SortedDeleteRecord
  | OtherRecordType nat

datatype RecordStatus = Normal | Outdated

datatype WriteOp = WriteOp_Put | WriteOp_Delete

text \<open>\<open>ModifyOperation_Other\<close> is an enum value outside the four named ones (the \<^verbatim>\<open>default\<close> branch).\<close>

datatype ModifyOperation =
    ModifyOperation_Write | ModifyOperation_Delete
  | ModifyOperation_Abort | ModifyOperation_Noop
  | ModifyOperation_Other nat

datatype PointerType = PointerType_DLRecord | PointerType_HashList | PointerType_Other nat

text \<open>
  How a call ends: it returns a value, or the process stops (\<^verbatim>\<open>std::abort\<close>, a failed
  assertion that is compiled in, a dereference of a pointer that addresses no record).
  \<open>Crash\<close> carries the lines the call gave to \<^verbatim>\<open>GlobalLogger.Error\<close> before the process
  stopped. A call that never returns is \<open>None\<close> at the type \<open>'a outcome option\<close>.
\<close>

datatype 'a outcome = Return 'a | Crash "string list"

text \<open>
  The two assertion macros are configured at build time. \<^verbatim>\<open>kvdk_assert\<close> is declared
  outside these files, so whether it is compiled in is a parameter of the model;
  \<^verbatim>\<open>assert\<close> is the C macro.
\<close>

record build =
  kvdk_assert_on :: bool
  c_assert_on :: bool

record SpaceEntry =
  space_offset :: addr
  space_size :: "64 word"

text \<open>A default-constructed \<^verbatim>\<open>SpaceEntry\<close>: \<^verbatim>\<open>Delete\<close> tests its size to see that nothing was allocated.\<close>

definition SpaceEntry_default :: SpaceEntry where
  "SpaceEntry_default = \<lparr>space_offset = 0, space_size = 0\<rparr>"

text \<open>
  A record on storage. Pointers to records are identified with their offsets
  (\<^verbatim>\<open>addr2offset\<close> is a bijection); a null pointer or null offset is \<open>None\<close>.
\<close>

record DLRecord =
  timestamp :: TimestampType
  record_type :: RecordType
  record_status :: RecordStatus
  prev_offset :: addr
  next_offset :: addr
  old_version :: "addr option"
  Key :: string
  Value :: string
  expire_time :: ExpireTimeType
  record_size :: "64 word"

type_synonym pmem = "addr \<Rightarrow> DLRecord option"

type_synonym slot = "string \<times> RecordType"

record HashEntry =
  entry_type :: RecordType
  entry_status :: RecordStatus
  index_type :: PointerType
  index_ptr :: "addr option"

definition HashEntry_empty :: HashEntry where
  "HashEntry_empty =
     \<lparr>entry_type = OtherRecordType 0, entry_status = Normal,
      index_type = PointerType_Other 0, index_ptr = None\<rparr>"

record LookupResult =
  lookup_s :: Status
  entry_ptr :: "slot option"
  entry :: HashEntry

record HashTable =
  slots :: "slot \<Rightarrow> HashEntry option"
  index_full :: bool

record WriteArgs =
  wa_key :: string
  wa_value :: string
  wa_type :: RecordType
  wa_status :: RecordStatus
  wa_ts :: TimestampType
  wa_space :: SpaceEntry

record HashWriteArgs =
  args_collection :: string
  args_key :: string
  args_value :: string
  args_op :: WriteOp
  args_hlist :: nat
  args_space :: SpaceEntry
  args_ts :: TimestampType
  args_lookup_result :: LookupResult

record WriteResult =
  wr_s :: Status
  existing_record :: "addr option"
  write_record :: "addr option"
  hash_entry_ptr :: "slot option"

definition WriteResult_default :: WriteResult where
  "WriteResult_default =
     \<lparr>wr_s = Ok, existing_record = None, write_record = None, hash_entry_ptr = None\<rparr>"

text \<open>
  The calls a \<^verbatim>\<open>HashList\<close> makes to its collaborators, in the order it makes them; a call
  of \<^verbatim>\<open>DLList::Update\<close> is kept with its answer.
\<close>

datatype Call =
    Call_Lookup bool string RecordType
  | Call_Insert "slot option" RecordType RecordStatus "addr option" PointerType
  | Call_Allocate "64 word"
  | Call_Update WriteArgs addr Status
  | Call_PushFront WriteArgs
  | Call_PushBack WriteArgs
  | Call_Replace addr addr

text \<open>
  A \<^verbatim>\<open>HashList\<close> with the parts of the engine it works on: \<open>self\<close> stands for the
  object's identity (\<^verbatim>\<open>this\<close>), \<open>dl_header\<close> and \<open>pmem\<close> for \<^verbatim>\<open>dl_list_\<close> and the arena it
  lives in, \<open>grants\<close> for the answers the allocator will give to the coming requests,
  \<open>update_races\<close> for the number of coming calls of \<^verbatim>\<open>DLList::Update\<close> that other threads
  will disturb.
\<close>

record HashList =
  self :: nat
  collection_name :: string
  collection_id :: CollectionIDType
  dl_header :: addr
  pmem :: pmem
  list_size :: "64 word"
  hash_table :: HashTable
  grants :: "SpaceEntry list"
  update_races :: nat
  calls :: "Call list"

subsection \<open>Collaborators\<close>

text \<open>
  Modelled from the spec: \<^verbatim>\<open>Collection::InternalKey\<close> (the base class is in another file).
  The internal key is the collection id in 8 little-endian bytes followed by the sub-key.
\<close>

definition EncodeID :: "CollectionIDType \<Rightarrow> string" where
  "EncodeID i = map (\<lambda>k. char_of (unat (drop_bit (8 * k) i))) [0..<8]"

definition InternalKey :: "HashList \<Rightarrow> string \<Rightarrow> string" where
  "InternalKey hl k = EncodeID (collection_id hl) @ k"

text \<open>
  Modelled from the spec: \<^verbatim>\<open>Collection::DecodeID\<close> and \<^verbatim>\<open>Collection::ExtractID\<close>, the
  inverse reading of the first 8 bytes.
\<close>

definition DecodeID :: "string \<Rightarrow> CollectionIDType" where
  "DecodeID v = foldr (\<lambda>c acc. of_nat (of_char c) + 256 * acc) (take 8 v) 0"

definition ExtractID :: "string \<Rightarrow> CollectionIDType" where
  "ExtractID k = DecodeID (take 8 k)"

text \<open>
  Modelled from the spec: \<^verbatim>\<open>DLRecord::RecordSize\<close>, the 64-byte header plus key and value,
  rounded up to a multiple of 64.
\<close>

definition RecordSize :: "string \<Rightarrow> string \<Rightarrow> 64 word" where
  "RecordSize k v = of_nat (((64 + length k + length v + 63) div 64) * 64)"

text \<open>
  Modelled from the spec: \<^verbatim>\<open>Allocator::Allocate\<close> returns a space entry whose size is 0 on
  failure. The allocator is external: its answers are the input \<open>grants\<close>, one per request,
  and an exhausted allocator answers with size 0.
\<close>

definition Allocate :: "HashList \<Rightarrow> 64 word \<Rightarrow> SpaceEntry \<times> HashList" where
  "Allocate hl request_size =
     (case grants hl of
        [] \<Rightarrow> (SpaceEntry_default, hl\<lparr>calls := calls hl @ [Call_Allocate request_size]\<rparr>)
      | g # gs \<Rightarrow> (g, hl\<lparr>grants := gs, calls := calls hl @ [Call_Allocate request_size]\<rparr>))"

text \<open>
  Modelled from the spec: \<^verbatim>\<open>HashTable::Lookup\<close>. The index maps a key and record type to
  an entry. A hit is \<open>Ok\<close> with the entry and its slot. A miss is \<open>NotFound\<close>; with
  \<open>may_insert\<close> the slot of the key is handed out for the coming insert (an empty slot holds
  nothing that a lookup can see), unless the index is exhausted, which is \<open>MemoryOverflow\<close>.
\<close>

definition Lookup :: "bool \<Rightarrow> HashTable \<Rightarrow> string \<Rightarrow> RecordType \<Rightarrow> LookupResult" where
  "Lookup may_insert ht k t =
     (case slots ht (k, t) of
        Some e \<Rightarrow> \<lparr>lookup_s = Ok, entry_ptr = Some (k, t), entry = e\<rparr>
      | None \<Rightarrow>
          if may_insert then
            if index_full ht
            then \<lparr>lookup_s = MemoryOverflow, entry_ptr = None, entry = HashEntry_empty\<rparr>
            else \<lparr>lookup_s = NotFound, entry_ptr = Some (k, t), entry = HashEntry_empty\<rparr>
          else \<lparr>lookup_s = NotFound, entry_ptr = None, entry = HashEntry_empty\<rparr>)"

definition hash_lookup :: "bool \<Rightarrow> HashList \<Rightarrow> string \<Rightarrow> RecordType \<Rightarrow> LookupResult \<times> HashList" where
  "hash_lookup may_insert hl k t =
     (Lookup may_insert (hash_table hl) k t,
      hl\<lparr>calls := calls hl @ [Call_Lookup may_insert k t]\<rparr>)"

text \<open>
  Modelled from the spec: \<^verbatim>\<open>HashTable::Insert\<close> writes type, status and pointer into the
  slot of the lookup result. Without a slot there is nothing to write to: the call crashes.
\<close>

definition hash_insert ::
  "HashList \<Rightarrow> LookupResult \<Rightarrow> RecordType \<Rightarrow> RecordStatus \<Rightarrow> addr option \<Rightarrow> PointerType
   \<Rightarrow> HashList outcome" where
  "hash_insert hl lr t st p pt =
     (case entry_ptr lr of
        None \<Rightarrow> Crash []
      | Some sl \<Rightarrow>
          Return (hl\<lparr>hash_table := (hash_table hl)\<lparr>slots := (slots (hash_table hl))
                       (sl \<mapsto> \<lparr>entry_type = t, entry_status = st, index_type = pt, index_ptr = p\<rparr>)\<rparr>,
                     calls := calls hl @ [Call_Insert (entry_ptr lr) t st p pt]\<rparr>))"

text \<open>
  Modelled from the spec: \<^verbatim>\<open>DLRecord::ConstructDLRecord\<close> writes the header fields and
  copies key and value into the reserved space.
\<close>

definition ConstructDLRecord ::
  "64 word \<Rightarrow> TimestampType \<Rightarrow> RecordType \<Rightarrow> RecordStatus \<Rightarrow> addr option \<Rightarrow> addr \<Rightarrow> addr
   \<Rightarrow> string \<Rightarrow> string \<Rightarrow> ExpireTimeType \<Rightarrow> DLRecord" where
  "ConstructDLRecord sz ts t st older p n k v e =
     \<lparr>timestamp = ts, record_type = t, record_status = st, prev_offset = p, next_offset = n,
      old_version = older, Key = k, Value = v, expire_time = e, record_size = sz\<rparr>"

text \<open>
  Modelled from the spec: the list \<^verbatim>\<open>DLList\<close> of section 4.2. A record is linked when both
  neighbours point at it.
\<close>

definition linked :: "pmem \<Rightarrow> addr \<Rightarrow> bool" where
  "linked h a =
     (case h a of
        None \<Rightarrow> False
      | Some r \<Rightarrow>
          (case h (prev_offset r) of
             None \<Rightarrow> False
           | Some p \<Rightarrow>
               (case h (next_offset r) of
                  None \<Rightarrow> False
                | Some n \<Rightarrow> next_offset p = a \<and> prev_offset n = a)))"

definition set_next :: "pmem \<Rightarrow> addr \<Rightarrow> addr \<Rightarrow> pmem" where
  "set_next h a v = (case h a of None \<Rightarrow> h | Some r \<Rightarrow> h(a \<mapsto> r\<lparr>next_offset := v\<rparr>))"

definition set_prev :: "pmem \<Rightarrow> addr \<Rightarrow> addr \<Rightarrow> pmem" where
  "set_prev h a v = (case h a of None \<Rightarrow> h | Some r \<Rightarrow> h(a \<mapsto> r\<lparr>prev_offset := v\<rparr>))"

text \<open>
  Modelled from the spec: \<^verbatim>\<open>DLList::Update\<close> replaces \<open>old\<close> by a fresh record at the
  reserved space that inherits the neighbours of \<open>old\<close> and has \<open>old\<close> as its old version.
  It answers \<open>Fail\<close> when \<open>old\<close> is no longer linked (section 4.2), and when the neighbours
  of \<open>old\<close> changed while the call took its locks (section 9); the other threads are
  outside the model, and \<open>update_races\<close> says how many of the coming calls they disturb
  in this way. A call that fails changes nothing else.
\<close>

definition DLList_Update :: "HashList \<Rightarrow> WriteArgs \<Rightarrow> addr \<Rightarrow> (Status \<times> HashList) outcome" where
  "DLList_Update hl args old =
     (let answered = (\<lambda>st. hl\<lparr>calls := calls hl @ [Call_Update args old st]\<rparr>) in
      case pmem hl old of
        None \<Rightarrow> Crash []
      | Some r \<Rightarrow>
          if \<not> linked (pmem hl) old then Return (Fail, answered Fail)
          else if update_races hl > 0
          then Return (Fail, (answered Fail)\<lparr>update_races := update_races hl - 1\<rparr>)
          else
            let n = space_offset (wa_space args);
                h1 = (pmem hl)(n \<mapsto> ConstructDLRecord (space_size (wa_space args)) (wa_ts args)
                        (wa_type args) (wa_status args) (Some old) (prev_offset r) (next_offset r)
                        (wa_key args) (wa_value args) 0);
                h2 = set_next h1 (prev_offset r) n;
                h3 = set_prev h2 (next_offset r) n
            in Return (Ok, (answered Ok)\<lparr>pmem := h3\<rparr>))"

text \<open>
  Modelled from the spec: \<^verbatim>\<open>DLList::PushFront\<close> and \<^verbatim>\<open>DLList::PushBack\<close> construct the
  record at the reserved space and splice it after, respectively before, the header.
\<close>

definition DLList_PushFront :: "HashList \<Rightarrow> WriteArgs \<Rightarrow> (Status \<times> HashList) outcome" where
  "DLList_PushFront hl args =
     (let hl1 = hl\<lparr>calls := calls hl @ [Call_PushFront args]\<rparr> in
      case pmem hl (dl_header hl) of
        None \<Rightarrow> Crash []
      | Some hr \<Rightarrow>
          let n = space_offset (wa_space args);
              h1 = (pmem hl)(n \<mapsto> ConstructDLRecord (space_size (wa_space args)) (wa_ts args)
                      (wa_type args) (wa_status args) None (dl_header hl) (next_offset hr)
                      (wa_key args) (wa_value args) 0);
              h2 = set_next h1 (dl_header hl) n;
              h3 = set_prev h2 (next_offset hr) n
          in Return (Ok, hl1\<lparr>pmem := h3\<rparr>))"

definition DLList_PushBack :: "HashList \<Rightarrow> WriteArgs \<Rightarrow> (Status \<times> HashList) outcome" where
  "DLList_PushBack hl args =
     (let hl1 = hl\<lparr>calls := calls hl @ [Call_PushBack args]\<rparr> in
      case pmem hl (dl_header hl) of
        None \<Rightarrow> Crash []
      | Some hr \<Rightarrow>
          let n = space_offset (wa_space args);
              h1 = (pmem hl)(n \<mapsto> ConstructDLRecord (space_size (wa_space args)) (wa_ts args)
                      (wa_type args) (wa_status args) None (prev_offset hr) (dl_header hl)
                      (wa_key args) (wa_value args) 0);
              h2 = set_next h1 (prev_offset hr) n;
              h3 = set_prev h2 (dl_header hl) n
          in Return (Ok, hl1\<lparr>pmem := h3\<rparr>))"


subsection \<open>The hash list (\<^verbatim>\<open>hash_list.hpp\<close>, \<^verbatim>\<open>hash_list.cpp\<close>)\<close>

text \<open>
  \<^verbatim>\<open>UpdateSize\<close>: the assertion guards against a negative size; \<^verbatim>\<open>fetch_add\<close> on the
  unsigned counter wraps around.
\<close>

definition UpdateSize :: "build \<Rightarrow> HashList \<Rightarrow> int \<Rightarrow> HashList outcome" where
  "UpdateSize bld hl delta =
     (if kvdk_assert_on bld \<and> \<not> (delta \<ge> 0 \<or> list_size hl \<ge> word_of_int (- delta))
      then Crash []
      else Return (hl\<lparr>list_size := list_size hl + word_of_int delta\<rparr>))"

text \<open>
  \<^verbatim>\<open>InitWriteArgs\<close> sets key, value, operation, collection name and owner. The space is
  default-constructed; timestamp and lookup result are written by \<^verbatim>\<open>PrepareWrite\<close> or
  \<^verbatim>\<open>Modify\<close> before they are read, and stand here with fixed values.
\<close>

definition InitWriteArgs :: "HashList \<Rightarrow> string \<Rightarrow> string \<Rightarrow> WriteOp \<Rightarrow> HashWriteArgs" where
  "InitWriteArgs hl k v opr =
     \<lparr>args_collection = collection_name hl, args_key = k, args_value = v, args_op = opr,
      args_hlist = self hl, args_space = SpaceEntry_default, args_ts = 0,
      args_lookup_result = \<lparr>lookup_s = NotFound, entry_ptr = None, entry = HashEntry_empty\<rparr>\<rparr>"

text \<open>
  \<^verbatim>\<open>Get\<close> takes no lock, so the arena may change between its reads: \<open>h_check\<close> is the arena
  when the status of the record is read, \<open>h_read\<close> the arena when its value is copied,
  which is later. A caller alone on the collection passes the same arena twice. The last
  argument is the caller's buffer, which the result carries back.
\<close>

definition Get ::
  "build \<Rightarrow> HashList \<Rightarrow> pmem \<Rightarrow> pmem \<Rightarrow> string \<Rightarrow> string \<Rightarrow> (Status \<times> string) outcome" where
  "Get bld hl h_check h_read k buf =
     (let internal_key = InternalKey hl k;
          lookup_result = Lookup False (hash_table hl) internal_key HashElem
      in if lookup_s lookup_result \<noteq> Ok \<or> entry_status (entry lookup_result) = Outdated
         then Return (NotFound, buf)
         else
           (case index_ptr (entry lookup_result) of
              None \<Rightarrow> Crash []
            | Some data_record \<Rightarrow>
                (case h_check data_record of
                   None \<Rightarrow> Crash []
                 | Some r \<Rightarrow>
                     if kvdk_assert_on bld \<and> record_type r \<noteq> HashElem then Crash []
                     else if record_status r = Outdated then Return (NotFound, buf)
                     else
                       (case h_read data_record of
                          None \<Rightarrow> Crash []
                        | Some r' \<Rightarrow> Return (Ok, Value r')))))"

definition PrepareWrite ::
  "build \<Rightarrow> HashList \<Rightarrow> HashWriteArgs \<Rightarrow> TimestampType
   \<Rightarrow> (Status \<times> HashWriteArgs \<times> HashList) outcome" where
  "PrepareWrite bld hl args ts =
     (if kvdk_assert_on bld \<and> \<not> (args_op args = WriteOp_Put \<or> length (args_value args) = 0)
      then Crash []
      else if args_hlist args \<noteq> self hl then Return (InvalidArgument, args, hl)
      else
        let args1 = args\<lparr>args_ts := ts\<rparr>;
            op_delete = (args_op args = WriteOp_Delete);
            internal_key = InternalKey hl (args_key args);
            (lr, hl1) = hash_lookup (\<not> op_delete) hl internal_key HashElem;
            args2 = args1\<lparr>args_lookup_result := lr\<rparr>;
            allocate = (\<lambda>allocate_space.
              if allocate_space then
                let (sp, hl2) = Allocate hl1 (RecordSize internal_key (args_value args));
                    args3 = args2\<lparr>args_space := sp\<rparr>
                in if space_size sp = 0 then Return (MemoryOverflow, args3, hl2)
                   else Return (Ok, args3, hl2)
              else Return (Ok, args2, hl1))
        in (case lookup_s lr of
              Ok \<Rightarrow> allocate (\<not> (op_delete \<and> entry_status (entry lr) = Outdated))
            | NotFound \<Rightarrow> allocate (\<not> op_delete)
            | MemoryOverflow \<Rightarrow> Return (lookup_s lr, args2, hl1)
            | _ \<Rightarrow> Crash []))"

text \<open>
  The loop \<^verbatim>\<open>while ((ret.s = dl_list_.Update(args, existing)) != Status::Ok)\<close> of
  \<^verbatim>\<open>putPrepared\<close> and \<^verbatim>\<open>deletePrepared\<close>, with the assertion in its body.
\<close>

partial_function (option) update_retry ::
  "build \<Rightarrow> HashList \<Rightarrow> WriteArgs \<Rightarrow> addr \<Rightarrow> (Status \<times> HashList) outcome option" where
  "update_retry bld hl args existing =
     (case DLList_Update hl args existing of
        Crash msgs \<Rightarrow> Some (Crash msgs)
      | Return (st, hl1) \<Rightarrow>
          if st = Ok then Some (Return (st, hl1))
          else if kvdk_assert_on bld \<and> st \<noteq> Fail then Some (Crash [])
          else update_retry bld hl1 args existing)"

text \<open>\<open>rnd\<close> is the value that \<^verbatim>\<open>fast_random_64()\<close> draws.\<close>

definition putPrepared ::
  "build \<Rightarrow> 64 word \<Rightarrow> HashList \<Rightarrow> LookupResult \<Rightarrow> string \<Rightarrow> string \<Rightarrow> TimestampType
   \<Rightarrow> SpaceEntry \<Rightarrow> (WriteResult \<times> HashList) outcome option" where
  "putPrepared bld rnd hl lookup_result k v ts sp =
     (let internal_key = InternalKey hl k;
          args = \<lparr>wa_key = internal_key, wa_value = v, wa_type = HashElem, wa_status = Normal,
                  wa_ts = ts, wa_space = sp\<rparr>;
          ret = WriteResult_default\<lparr>write_record := Some (space_offset sp),
                                    hash_entry_ptr := entry_ptr lookup_result\<rparr>
      in if lookup_s lookup_result = Ok then
           (case index_ptr (entry lookup_result) of
              None \<Rightarrow> Some (Crash [])
            | Some existing \<Rightarrow>
                (case pmem hl existing of
                   None \<Rightarrow> Some (Crash [])
                 | Some r \<Rightarrow>
                     if kvdk_assert_on bld \<and> \<not> (ts > timestamp r) then Some (Crash [])
                     else
                       (case update_retry bld hl args existing of
                          None \<Rightarrow> None
                        | Some (Crash msgs) \<Rightarrow> Some (Crash msgs)
                        | Some (Return (st, hl1)) \<Rightarrow>
                            (case hash_insert hl1 lookup_result HashElem Normal
                                    (write_record ret) PointerType_DLRecord of
                               Crash msgs \<Rightarrow> Some (Crash msgs)
                             | Return hl2 \<Rightarrow>
                                 Some (Return (ret\<lparr>existing_record := Some existing,
                                                    wr_s := st\<rparr>, hl2))))))
         else if kvdk_assert_on bld \<and> lookup_s lookup_result \<noteq> NotFound then Some (Crash [])
         else
           let push_back = (rnd mod 2 = 0) in
           (case (if push_back then DLList_PushBack hl args else DLList_PushFront hl args) of
              Crash msgs \<Rightarrow> Some (Crash msgs)
            | Return (st, hl1) \<Rightarrow>
                if kvdk_assert_on bld \<and> st \<noteq> Ok then Some (Crash [])
                else
                  (case hash_insert hl1 lookup_result HashElem Normal
                          (write_record ret) PointerType_DLRecord of
                     Crash msgs \<Rightarrow> Some (Crash msgs)
                   | Return hl2 \<Rightarrow> Some (Return (ret, hl2)))))"

definition deletePrepared ::
  "build \<Rightarrow> HashList \<Rightarrow> LookupResult \<Rightarrow> string \<Rightarrow> TimestampType \<Rightarrow> SpaceEntry
   \<Rightarrow> (WriteResult \<times> HashList) outcome option" where
  "deletePrepared bld hl lookup_result k ts sp =
     (let internal_key = InternalKey hl k in
      if kvdk_assert_on bld \<and>
         \<not> (lookup_s lookup_result = Ok \<and> entry_type (entry lookup_result) = HashElem \<and>
            entry_status (entry lookup_result) = Normal)
      then Some (Crash [])
      else if c_assert_on bld \<and> \<not> (space_size sp \<ge> RecordSize internal_key [])
      then Some (Crash [])
      else
        (case index_ptr (entry lookup_result) of
           None \<Rightarrow> Some (Crash [])
         | Some existing \<Rightarrow>
             (case pmem hl existing of
                None \<Rightarrow> Some (Crash [])
              | Some r \<Rightarrow>
                  if kvdk_assert_on bld \<and> \<not> (ts > timestamp r) then Some (Crash [])
                  else
                    let args = \<lparr>wa_key = internal_key, wa_value = [], wa_type = HashElem,
                                wa_status = Outdated, wa_ts = ts, wa_space = sp\<rparr>
                    in (case update_retry bld hl args existing of
                          None \<Rightarrow> None
                        | Some (Crash msgs) \<Rightarrow> Some (Crash msgs)
                        | Some (Return (st, hl1)) \<Rightarrow>
                            (case hash_insert hl1 lookup_result HashElem Outdated
                                    (Some (space_offset sp)) PointerType_DLRecord of
                               Crash msgs \<Rightarrow> Some (Crash msgs)
                             | Return hl2 \<Rightarrow>
                                 Some (Return (WriteResult_default
                                         \<lparr>wr_s := st, existing_record := Some existing,
                                          write_record := Some (space_offset sp)\<rparr>, hl2)))))))"

text \<open>
  \<^verbatim>\<open>Write\<close> reads the status of \<^verbatim>\<open>ret.existing_record\<close> after the prepared write, in the
  arena as that write left it.
\<close>

definition Write ::
  "build \<Rightarrow> 64 word \<Rightarrow> HashList \<Rightarrow> HashWriteArgs \<Rightarrow> (WriteResult \<times> HashList) outcome option" where
  "Write bld rnd hl args =
     (if args_hlist args \<noteq> self hl
      then Some (Return (WriteResult_default\<lparr>wr_s := InvalidArgument\<rparr>, hl))
      else if args_op args = WriteOp_Put then
        (case putPrepared bld rnd hl (args_lookup_result args) (args_key args) (args_value args)
                (args_ts args) (args_space args) of
           None \<Rightarrow> None
         | Some (Crash msgs) \<Rightarrow> Some (Crash msgs)
         | Some (Return (ret, hl1)) \<Rightarrow>
             (case existing_record ret of
                None \<Rightarrow>
                  (case UpdateSize bld hl1 1 of
                     Crash msgs \<Rightarrow> Some (Crash msgs) | Return hl2 \<Rightarrow> Some (Return (ret, hl2)))
              | Some e \<Rightarrow>
                  (case pmem hl1 e of
                     None \<Rightarrow> Some (Crash [])
                   | Some r \<Rightarrow>
                       if record_status r = Outdated then
                         (case UpdateSize bld hl1 1 of
                            Crash msgs \<Rightarrow> Some (Crash msgs) | Return hl2 \<Rightarrow> Some (Return (ret, hl2)))
                       else Some (Return (ret, hl1)))))
      else
        (case deletePrepared bld hl (args_lookup_result args) (args_key args) (args_ts args)
                (args_space args) of
           None \<Rightarrow> None
         | Some (Crash msgs) \<Rightarrow> Some (Crash msgs)
         | Some (Return (ret, hl1)) \<Rightarrow>
             (case existing_record ret of
                None \<Rightarrow> Some (Return (ret, hl1))
              | Some e \<Rightarrow>
                  (case pmem hl1 e of
                     None \<Rightarrow> Some (Crash [])
                   | Some r \<Rightarrow>
                       if record_status r = Normal then
                         (case UpdateSize bld hl1 (- 1) of
                            Crash msgs \<Rightarrow> Some (Crash msgs) | Return hl2 \<Rightarrow> Some (Return (ret, hl2)))
                       else Some (Return (ret, hl1))))))"

definition Put ::
  "build \<Rightarrow> 64 word \<Rightarrow> HashList \<Rightarrow> string \<Rightarrow> string \<Rightarrow> TimestampType
   \<Rightarrow> (WriteResult \<times> HashList) outcome option" where
  "Put bld rnd hl k v ts =
     (let args = InitWriteArgs hl k v WriteOp_Put in
      case PrepareWrite bld hl args ts of
        Crash msgs \<Rightarrow> Some (Crash msgs)
      | Return (st, args1, hl1) \<Rightarrow>
          if st = Ok then Write bld rnd hl1 args1
          else Some (Return (WriteResult_default\<lparr>wr_s := st\<rparr>, hl1)))"

definition Delete ::
  "build \<Rightarrow> 64 word \<Rightarrow> HashList \<Rightarrow> string \<Rightarrow> TimestampType
   \<Rightarrow> (WriteResult \<times> HashList) outcome option" where
  "Delete bld rnd hl k ts =
     (let args = InitWriteArgs hl k [] WriteOp_Delete in
      case PrepareWrite bld hl args ts of
        Crash msgs \<Rightarrow> Some (Crash msgs)
      | Return (st, args1, hl1) \<Rightarrow>
          if st = Ok \<and> space_size (args_space args1) > 0 then Write bld rnd hl1 args1
          else Some (Return (WriteResult_default\<lparr>wr_s := st\<rparr>, hl1)))"

text \<open>
  \<open>modify_func\<close> is the caller's transformer with its \<^verbatim>\<open>modify_args\<close>: from the existing
  value (\<open>None\<close> for the null pointer) it gives the operation and what it stored in
  \<^verbatim>\<open>new_value\<close>.
\<close>

definition Modify ::
  "build \<Rightarrow> 64 word \<Rightarrow> HashList \<Rightarrow> string \<Rightarrow> (string option \<Rightarrow> ModifyOperation \<times> string)
   \<Rightarrow> TimestampType \<Rightarrow> (WriteResult \<times> HashList) outcome option" where
  "Modify bld rnd hl k modify_func ts =
     (let internal_key = InternalKey hl k;
          (lookup_result, hl1) = hash_lookup True hl internal_key HashElem;
          write_branch = (\<lambda>ret v opr.
             let args = (InitWriteArgs hl1 k v opr)
                          \<lparr>args_ts := ts, args_lookup_result := lookup_result\<rparr>;
                 (sp, hl2) = Allocate hl1 (RecordSize internal_key v);
                 args1 = args\<lparr>args_space := sp\<rparr>
             in if space_size sp = 0 then Some (Return (ret\<lparr>wr_s := MemoryOverflow\<rparr>, hl2))
                else Write bld rnd hl2 args1);
          dispatch = (\<lambda>ret existing_value.
             case modify_func existing_value of
               (ModifyOperation_Write, new_value) \<Rightarrow> write_branch ret new_value WriteOp_Put
             | (ModifyOperation_Delete, new_value) \<Rightarrow> write_branch ret [] WriteOp_Delete
             | (ModifyOperation_Abort, new_value) \<Rightarrow> Some (Return (ret\<lparr>wr_s := Abort\<rparr>, hl1))
             | (ModifyOperation_Noop, new_value) \<Rightarrow> Some (Return (ret\<lparr>wr_s := Ok\<rparr>, hl1))
             | (ModifyOperation_Other n, new_value) \<Rightarrow> Some (Crash []))
      in if lookup_s lookup_result = Ok then
           (case index_ptr (entry lookup_result) of
              None \<Rightarrow> Some (Crash [])
            | Some existing \<Rightarrow>
                (case pmem hl1 existing of
                   None \<Rightarrow> Some (Crash [])
                 | Some r \<Rightarrow>
                     dispatch (WriteResult_default\<lparr>existing_record := Some existing\<rparr>)
                       (if record_status r \<noteq> Outdated then Some (Value r) else None)))
         else if lookup_s lookup_result = NotFound then dispatch WriteResult_default None
         else Some (Return (WriteResult_default\<lparr>wr_s := lookup_s lookup_result\<rparr>, hl1)))"


text \<open>
  \<^verbatim>\<open>FetchID\<close> is static. The argument is the record the pointer addresses, \<open>None\<close> for
  the null pointer; a returned value comes with the lines given to \<^verbatim>\<open>GlobalLogger.Error\<close>.
\<close>

definition FetchID :: "build \<Rightarrow> DLRecord option \<Rightarrow> (string list \<times> CollectionIDType) outcome" where
  "FetchID bld record =
     (case record of
        None \<Rightarrow> Crash []
      | Some r \<Rightarrow>
          (case record_type r of
             HashElem \<Rightarrow> Return ([], ExtractID (Key r))
           | HashHeader \<Rightarrow> Return ([], DecodeID (Value r))
           | _ \<Rightarrow>
               (if kvdk_assert_on bld
                then Crash [''Wrong record type %u in HashListID'']
                else Return ([''Wrong record type %u in HashListID''], 0))))"

subsection \<open>The cleaner of old records (\<^verbatim>\<open>old_records_cleaner.cpp\<close>)\<close>

text \<open>
  The cleaner works on the engine through the interface of its own file: data entries with
  \<^verbatim>\<open>meta.type\<close> and \<^verbatim>\<open>header.record_size\<close>, hash entries with \<^verbatim>\<open>header.offset_type\<close> and an
  index pointer, skiplist nodes with their record. Locks are taken and released within one
  call and are left out. The fields \<open>purge_races\<close> and \<open>purge_calls\<close> of the engine belong
  to the model of \<^verbatim>\<open>Skiplist::Purge\<close> below.
\<close>

record OldDataRecord =
  pmem_data_record :: addr
  newer_version_timestamp :: TimestampType

record OldDeleteRecord =
  pmem_delete_record :: addr
  delete_newer_version_timestamp :: TimestampType
  hash_entry_ref :: nat

record DataEntry =
  meta_type :: RecordType
  header_record_size :: "32 word"
  destroyed :: bool

datatype HashOffsetType =
  HashOffsetType_DLRecord | HashOffsetType_SkiplistNode | HashOffsetType_Other nat

record CleanerHashEntry =
  offset_type :: HashOffsetType
  index :: "addr option"

record VersionController =
  clock :: TimestampType
  active_snapshots :: "TimestampType list"
  oldest_snapshot_ts :: TimestampType

record KVEngine =
  data_entries :: "addr \<Rightarrow> DataEntry option"
  hash_entries :: "nat \<Rightarrow> CleanerHashEntry option"
  skiplist_nodes :: "addr \<Rightarrow> addr option"
  version_controller :: VersionController
  batch_freed :: "SpaceEntry list list"
  purge_races :: nat
  purge_calls :: "(addr \<times> addr option \<times> bool) list"

record ThreadCache =
  old_data_records :: "OldDataRecord list"
  old_delete_records :: "OldDeleteRecord list"

record PendingFreeSpaceEntries =
  entries :: "SpaceEntry list"
  free_ts :: TimestampType

record OldRecordsCleaner =
  thread_cache :: "ThreadCache list"
  global_old_data_records :: "OldDataRecord list list"
  global_old_delete_records :: "OldDeleteRecord list list"
  pending_free_space_entries :: "PendingFreeSpaceEntries list"
  last_clean_all_ts :: TimestampType
  kv_engine :: KVEngine

text \<open>
  Modelled from the spec: the version controller of section 6.3. The timestamp is strictly
  monotonic, so reading it advances it; the oldest snapshot is the floor of the live
  snapshots, and the current time when there is none.
\<close>

definition GetCurrentTimestamp :: "VersionController \<Rightarrow> TimestampType \<times> VersionController" where
  "GetCurrentTimestamp vc = (clock vc, vc\<lparr>clock := clock vc + 1\<rparr>)"

definition UpdatedOldestSnapshot :: "VersionController \<Rightarrow> VersionController" where
  "UpdatedOldestSnapshot vc = vc\<lparr>oldest_snapshot_ts := foldr min (active_snapshots vc) (clock vc)\<rparr>"

definition OldestSnapshotTS :: "VersionController \<Rightarrow> TimestampType" where
  "OldestSnapshotTS vc = oldest_snapshot_ts vc"

text \<open>Modelled from the spec: \<^verbatim>\<open>Allocator::BatchFree\<close>; the engine keeps the batches it was given.\<close>

definition BatchFree :: "KVEngine \<Rightarrow> SpaceEntry list \<Rightarrow> KVEngine" where
  "BatchFree eng es = eng\<lparr>batch_freed := batch_freed eng @ [es]\<rparr>"

text \<open>Modelled from the spec: \<^verbatim>\<open>DataEntry::Destroy\<close> poisons the header of the entry.\<close>

definition DataEntry_Destroy :: "KVEngine \<Rightarrow> addr \<Rightarrow> DataEntry \<Rightarrow> KVEngine" where
  "DataEntry_Destroy eng a de = eng\<lparr>data_entries := (data_entries eng)(a \<mapsto> de\<lparr>destroyed := True\<rparr>)\<rparr>"

text \<open>Modelled from the spec: \<^verbatim>\<open>HashEntry::Clear\<close> empties the entry.\<close>

definition CleanerHashEntry_empty :: CleanerHashEntry where
  "CleanerHashEntry_empty = \<lparr>offset_type = HashOffsetType_Other 0, index = None\<rparr>"

definition HashEntry_Clear :: "KVEngine \<Rightarrow> nat \<Rightarrow> KVEngine" where
  "HashEntry_Clear eng ref =
     eng\<lparr>hash_entries := (hash_entries eng)(ref \<mapsto> CleanerHashEntry_empty)\<rparr>"

definition purgeOldDataRecord :: "KVEngine \<Rightarrow> OldDataRecord \<Rightarrow> (SpaceEntry \<times> KVEngine) outcome" where
  "purgeOldDataRecord eng old_data_record =
     (let data_entry = pmem_data_record old_data_record in
      case data_entries eng data_entry of
        None \<Rightarrow> Crash []
      | Some de \<Rightarrow>
          (case meta_type de of
             StringDataRecord \<Rightarrow>
               Return (\<lparr>space_offset = data_entry, space_size = ucast (header_record_size de)\<rparr>,
                       DataEntry_Destroy eng data_entry de)
           | SortedDataRecord \<Rightarrow>
               Return (\<lparr>space_offset = data_entry, space_size = ucast (header_record_size de)\<rparr>,
                       DataEntry_Destroy eng data_entry de)
           | _ \<Rightarrow> Crash []))"

text \<open>
  The inner \<^verbatim>\<open>switch\<close> of the sorted branch of \<^verbatim>\<open>purgeOldDeleteRecord\<close>: the record the hash
  entry indexes, and the skiplist node when it indexes one.
\<close>

definition hash_indexed_pmem_record ::
  "KVEngine \<Rightarrow> CleanerHashEntry \<Rightarrow> (addr option \<times> addr option) outcome" where
  "hash_indexed_pmem_record eng he =
     (case offset_type he of
        HashOffsetType_DLRecord \<Rightarrow> Return (index he, None)
      | HashOffsetType_SkiplistNode \<Rightarrow>
          (case index he of
             None \<Rightarrow> Crash []
           | Some dram_node \<Rightarrow>
               (case skiplist_nodes eng dram_node of
                  None \<Rightarrow> Crash []
                | Some record \<Rightarrow> Return (Some record, Some dram_node)))
      | _ \<Rightarrow> Crash [''Wrong time in handle pending free skiplist delete record''])"

text \<open>
  The loop \<^verbatim>\<open>while (1)\<close> of the sorted branch of \<^verbatim>\<open>purgeOldDeleteRecord\<close>. \<open>Purge\<close> stands
  for \<^verbatim>\<open>Skiplist::Purge\<close>, which is in another file: it answers whether the record could be
  spliced out of its skiplist, and gives the engine as the attempt left it. After an attempt
  that could not, the loop reads the hash entry again and tries again. The space entry is
  made from the header of the data entry as it is when the loop is left.
\<close>

definition space_entry_of :: "KVEngine \<Rightarrow> addr \<Rightarrow> (SpaceEntry \<times> KVEngine) outcome" where
  "space_entry_of eng data_entry =
     (case data_entries eng data_entry of
        None \<Rightarrow> Crash []
      | Some de \<Rightarrow>
          Return (\<lparr>space_offset = data_entry, space_size = ucast (header_record_size de)\<rparr>, eng))"

partial_function (option) purge_sorted_delete ::
  "(KVEngine \<Rightarrow> addr \<Rightarrow> addr option \<Rightarrow> bool \<times> KVEngine) \<Rightarrow> KVEngine \<Rightarrow> OldDeleteRecord
   \<Rightarrow> (SpaceEntry \<times> KVEngine) outcome option" where
  "purge_sorted_delete Purge eng old_delete_record =
     (let data_entry = pmem_delete_record old_delete_record in
      case hash_entries eng (hash_entry_ref old_delete_record) of
        None \<Rightarrow> Some (Crash [])
      | Some he \<Rightarrow>
          (case hash_indexed_pmem_record eng he of
             Crash msgs \<Rightarrow> Some (Crash msgs)
           | Return (indexed, dram_node) \<Rightarrow>
               if indexed = Some data_entry then
                 (case Purge eng data_entry dram_node of
                    (purged, eng1) \<Rightarrow>
                      if \<not> purged then purge_sorted_delete Purge eng1 old_delete_record
                      else Some (space_entry_of
                                   (HashEntry_Clear eng1 (hash_entry_ref old_delete_record))
                                   data_entry))
               else Some (space_entry_of eng data_entry)))"

text \<open>
  \<^verbatim>\<open>purgeOldDeleteRecord\<close> reads the type of the data entry once. The string branch checks
  the hash entry twice, the second time under the lock.
\<close>

definition purgeOldDeleteRecord ::
  "(KVEngine \<Rightarrow> addr \<Rightarrow> addr option \<Rightarrow> bool \<times> KVEngine) \<Rightarrow> KVEngine \<Rightarrow> OldDeleteRecord
   \<Rightarrow> (SpaceEntry \<times> KVEngine) outcome option" where
  "purgeOldDeleteRecord Purge eng old_delete_record =
     (let data_entry = pmem_delete_record old_delete_record in
      case data_entries eng data_entry of
        None \<Rightarrow> Some (Crash [])
      | Some de \<Rightarrow>
          (case meta_type de of
             StringDeleteRecord \<Rightarrow>
               (case hash_entries eng (hash_entry_ref old_delete_record) of
                  None \<Rightarrow> Some (Crash [])
                | Some he \<Rightarrow>
                    Some (Return
                      (\<lparr>space_offset = data_entry, space_size = ucast (header_record_size de)\<rparr>,
                       if index he = Some data_entry
                       then (if index he = Some data_entry
                             then HashEntry_Clear eng (hash_entry_ref old_delete_record)
                             else eng)
                       else eng)))
           | SortedDeleteRecord \<Rightarrow> purge_sorted_delete Purge eng old_delete_record
           | _ \<Rightarrow> Some (Crash [])))"

text \<open>
  Modelled from the spec: \<^verbatim>\<open>Skiplist::Purge\<close> splices the record out of its skiplist and
  answers false on splice contention (section 4.4). The skiplist and the other threads are
  outside the model: the engine keeps the calls with their answers in \<open>purge_calls\<close>, and
  \<open>purge_races\<close> says how many of the coming calls meet contention.
\<close>

definition Skiplist_Purge :: "KVEngine \<Rightarrow> addr \<Rightarrow> addr option \<Rightarrow> bool \<times> KVEngine" where
  "Skiplist_Purge eng record dram_node =
     (let answered = (\<lambda>purged.
            eng\<lparr>purge_calls := purge_calls eng @ [(record, dram_node, purged)]\<rparr>)
      in if purge_races eng > 0
         then (False, (answered False)\<lparr>purge_races := purge_races eng - 1\<rparr>)
         else (True, answered True))"

text \<open>The loop over \<^verbatim>\<open>thread_cache_\<close> that fetches the cached records into the global queues.\<close>

fun fetch_thread_caches ::
  "ThreadCache list \<Rightarrow> OldDataRecord list list \<Rightarrow> OldDeleteRecord list list
   \<Rightarrow> ThreadCache list \<times> OldDataRecord list list \<times> OldDeleteRecord list list" where
  "fetch_thread_caches [] gd gx = ([], gd, gx)"
| "fetch_thread_caches (tc # tcs) gd gx =
     (if length (old_data_records tc) > 0 \<or> length (old_delete_records tc) > 10000000 then
        let (tc1, gd1) = (if length (old_data_records tc) > 0
                          then (tc\<lparr>old_data_records := []\<rparr>, gd @ [old_data_records tc])
                          else (tc, gd));
            (tc2, gx1) = (if length (old_delete_records tc1) > 10000000
                          then (tc1\<lparr>old_delete_records := []\<rparr>, gx @ [old_delete_records tc1])
                          else (tc1, gx));
            (rest, gd2, gx2) = fetch_thread_caches tcs gd1 gx1
        in (tc2 # rest, gd2, gx2)
      else
        let (rest, gd2, gx2) = fetch_thread_caches tcs gd gx
        in (tc # rest, gd2, gx2))"

text \<open>
  The two loops that look for free-able records: the inner one over the records of one
  deque, the outer one over the deques of the global queue. They carry the engine, the
  spaces of the purged records and the records that stay referred.
\<close>

fun clean_data_records ::
  "TimestampType \<Rightarrow> OldDataRecord list \<Rightarrow> KVEngine \<times> SpaceEntry list \<times> OldDataRecord list
   \<Rightarrow> (KVEngine \<times> SpaceEntry list \<times> OldDataRecord list) outcome" where
  "clean_data_records oldest [] acc = Return acc"
| "clean_data_records oldest (r # rs) (eng, space_to_free, data_record_refered) =
     (if newer_version_timestamp r \<le> oldest then
        (case purgeOldDataRecord eng r of
           Crash msgs \<Rightarrow> Crash msgs
         | Return (sp, eng1) \<Rightarrow>
             clean_data_records oldest rs (eng1, space_to_free @ [sp], data_record_refered))
      else clean_data_records oldest rs (eng, space_to_free, data_record_refered @ [r]))"

fun clean_global_data ::
  "TimestampType \<Rightarrow> OldDataRecord list list \<Rightarrow> KVEngine \<times> SpaceEntry list \<times> OldDataRecord list
   \<Rightarrow> (KVEngine \<times> SpaceEntry list \<times> OldDataRecord list) outcome" where
  "clean_global_data oldest [] acc = Return acc"
| "clean_global_data oldest (q # qs) acc =
     (case clean_data_records oldest q acc of
        Crash msgs \<Rightarrow> Crash msgs
      | Return acc1 \<Rightarrow> clean_global_data oldest qs acc1)"

fun clean_delete_records ::
  "(KVEngine \<Rightarrow> addr \<Rightarrow> addr option \<Rightarrow> bool \<times> KVEngine) \<Rightarrow> TimestampType \<Rightarrow> OldDeleteRecord list
   \<Rightarrow> KVEngine \<times> SpaceEntry list \<times> OldDeleteRecord list
   \<Rightarrow> (KVEngine \<times> SpaceEntry list \<times> OldDeleteRecord list) outcome option" where
  "clean_delete_records P oldest [] acc = Some (Return acc)"
| "clean_delete_records P oldest (r # rs) (eng, space_pending, delete_record_refered) =
     (if delete_newer_version_timestamp r \<le> oldest then
        (case purgeOldDeleteRecord P eng r of
           None \<Rightarrow> None
         | Some (Crash msgs) \<Rightarrow> Some (Crash msgs)
         | Some (Return (sp, eng1)) \<Rightarrow>
             clean_delete_records P oldest rs (eng1, space_pending @ [sp], delete_record_refered))
      else clean_delete_records P oldest rs (eng, space_pending, delete_record_refered @ [r]))"

fun clean_global_delete ::
  "(KVEngine \<Rightarrow> addr \<Rightarrow> addr option \<Rightarrow> bool \<times> KVEngine) \<Rightarrow> TimestampType \<Rightarrow> OldDeleteRecord list list
   \<Rightarrow> KVEngine \<times> SpaceEntry list \<times> OldDeleteRecord list
   \<Rightarrow> (KVEngine \<times> SpaceEntry list \<times> OldDeleteRecord list) outcome option" where
  "clean_global_delete P oldest [] acc = Some (Return acc)"
| "clean_global_delete P oldest (q # qs) acc =
     (case clean_delete_records P oldest q acc of
        None \<Rightarrow> None
      | Some (Crash msgs) \<Rightarrow> Some (Crash msgs)
      | Some (Return acc1) \<Rightarrow> clean_global_delete P oldest qs acc1)"

text \<open>
  The loop over \<^verbatim>\<open>pending_free_space_entries_\<close> from its head, with the \<^verbatim>\<open>erase\<close> of the
  batches it passed: it gives the engine and the batches that stay pending.
\<close>

fun free_pending ::
  "TimestampType \<Rightarrow> KVEngine \<Rightarrow> PendingFreeSpaceEntries list
   \<Rightarrow> KVEngine \<times> PendingFreeSpaceEntries list" where
  "free_pending oldest eng [] = (eng, [])"
| "free_pending oldest eng (b # bs) =
     (if free_ts b < oldest then free_pending oldest (BatchFree eng (entries b)) bs
      else (eng, b # bs))"

definition TryCleanAll ::
  "(KVEngine \<Rightarrow> addr \<Rightarrow> addr option \<Rightarrow> bool \<times> KVEngine) \<Rightarrow> OldRecordsCleaner
   \<Rightarrow> OldRecordsCleaner outcome option" where
  "TryCleanAll P c =
     (let eng = kv_engine c;
          (ts, vc1) = GetCurrentTimestamp (version_controller eng);
          vc2 = UpdatedOldestSnapshot vc1;
          oldest = OldestSnapshotTS vc2;
          eng1 = eng\<lparr>version_controller := vc2\<rparr>;
          (caches, gd, gx) = fetch_thread_caches (thread_cache c)
                               (global_old_data_records c) (global_old_delete_records c)
      in case clean_global_data oldest gd (eng1, [], []) of
           Crash msgs \<Rightarrow> Some (Crash msgs)
         | Return (eng2, space_to_free, data_record_refered) \<Rightarrow>
             (case clean_global_delete P oldest gx (eng2, [], []) of
                None \<Rightarrow> None
              | Some (Crash msgs) \<Rightarrow> Some (Crash msgs)
              | Some (Return (eng3, space_pending, delete_record_refered)) \<Rightarrow>
                  let (pending1, vc3) =
                        (if length space_pending > 0 then
                           let (now, vc) = GetCurrentTimestamp (version_controller eng3)
                           in (pending_free_space_entries c @
                                 [\<lparr>entries = space_pending, free_ts = now\<rparr>], vc)
                         else (pending_free_space_entries c, version_controller eng3));
                      (eng4, pending2) = free_pending oldest
                                           (eng3\<lparr>version_controller := vc3\<rparr>) pending1;
                      eng5 = (if length space_to_free > 0 then BatchFree eng4 space_to_free
                              else eng4)
                  in Some (Return (c\<lparr>thread_cache := caches,
                                     global_old_data_records := [data_record_refered],
                                     global_old_delete_records := [delete_record_refered],
                                     pending_free_space_entries := pending2,
                                     last_clean_all_ts := ts,
                                     kv_engine := eng5\<rparr>))))"

subsection \<open>Notions used in the statements and in the proofs\<close>

text \<open>The allocator answers the next request with a zero-sized grant.\<close>

definition next_grant_empty :: "HashList \<Rightarrow> bool" where
  "next_grant_empty hl = (case grants hl of [] \<Rightarrow> True | g # gs \<Rightarrow> space_size g = 0)"

text \<open>The list, the hash index and the size of a collection are the same in two states.\<close>

definition same_collection :: "HashList \<Rightarrow> HashList \<Rightarrow> bool" where
  "same_collection hl hl' =
     (pmem hl' = pmem hl \<and> dl_header hl' = dl_header hl \<and>
      hash_table hl' = hash_table hl \<and> list_size hl' = list_size hl)"

text \<open>The record a lookup result points at, when the lookup found one.\<close>

definition found_record :: "HashList \<Rightarrow> LookupResult \<Rightarrow> DLRecord option" where
  "found_record hl lr =
     (if lookup_s lr = Ok
      then (case index_ptr (entry lr) of None \<Rightarrow> None | Some e \<Rightarrow> pmem hl e)
      else None)"

text \<open>The value \<^verbatim>\<open>Modify\<close> hands to the transformer: that of a found record that is not outdated.\<close>

definition existing_value :: "HashList \<Rightarrow> LookupResult \<Rightarrow> string option" where
  "existing_value hl lr =
     (case found_record hl lr of
        None \<Rightarrow> None
      | Some r \<Rightarrow> if record_status r \<noteq> Outdated then Some (Value r) else None)"

text \<open>A lookup result that \<^verbatim>\<open>Modify\<close> can work with: a miss, or a hit on a record of the arena.\<close>

definition resolved :: "HashList \<Rightarrow> LookupResult \<Rightarrow> bool" where
  "resolved hl lr =
     (lookup_s lr = NotFound \<or> (lookup_s lr = Ok \<and> found_record hl lr \<noteq> None))"

text \<open>The index holds nothing for the sub-key, or a tombstone.\<close>

definition tombstone_or_absent :: "HashList \<Rightarrow> string \<Rightarrow> bool" where
  "tombstone_or_absent hl k =
     (case slots (hash_table hl) (InternalKey hl k, HashElem) of
        None \<Rightarrow> True
      | Some e \<Rightarrow> entry_status e = Outdated)"

text \<open>
  The collection when the calls of \<^verbatim>\<open>DLList::Update\<close> that other threads disturb have been
  made and answered.
\<close>

definition raced :: "HashList \<Rightarrow> WriteArgs \<Rightarrow> addr \<Rightarrow> HashList" where
  "raced hl wa ex =
     hl\<lparr>update_races := 0,
        calls := calls hl @ replicate (update_races hl) (Call_Update wa ex Fail)\<rparr>"

text \<open>
  The operation a \<^verbatim>\<open>Write\<close> performs: none when the arguments are bound to another
  collection, and the operation of the arguments otherwise.
\<close>

definition operation :: "HashList \<Rightarrow> HashWriteArgs \<Rightarrow> WriteOp option" where
  "operation hl args = (if args_hlist args \<noteq> self hl then None else Some (args_op args))"

text \<open>
  The existing record of a prepared write: \<^verbatim>\<open>putPrepared\<close> takes the record of the index
  entry when the lookup answered \<open>Ok\<close> and has none otherwise, \<^verbatim>\<open>deletePrepared\<close> takes the
  record of the index entry.
\<close>

definition existing_of :: "HashWriteArgs \<Rightarrow> addr option" where
  "existing_of args =
     (if args_op args = WriteOp_Put \<and> lookup_s (args_lookup_result args) \<noteq> Ok then None
      else index_ptr (entry (args_lookup_result args)))"

text \<open>
  What a prepared write needs in order to run to its end: a slot for the insert into the
  index; for a write over an existing record, that record in the arena, linked and, where
  it is asserted, older than the write; for a new key, the header of the list; and in a
  build with assertions, that the assertions of \<^verbatim>\<open>putPrepared\<close>, \<^verbatim>\<open>deletePrepared\<close> and
  \<^verbatim>\<open>UpdateSize\<close> hold.
\<close>

definition write_ready :: "build \<Rightarrow> HashList \<Rightarrow> HashWriteArgs \<Rightarrow> bool" where
  "write_ready bld hl args =
     (let lr = args_lookup_result args in
      entry_ptr lr \<noteq> None \<and>
      (case existing_of args of
         None \<Rightarrow>
           args_op args = WriteOp_Put \<and> lookup_s lr \<noteq> Ok \<and>
           (kvdk_assert_on bld \<longrightarrow> lookup_s lr = NotFound) \<and>
           pmem hl (dl_header hl) \<noteq> None
       | Some ex \<Rightarrow>
           (case pmem hl ex of
              None \<Rightarrow> False
            | Some r \<Rightarrow>
                linked (pmem hl) ex \<and>
                (kvdk_assert_on bld \<longrightarrow> timestamp r < args_ts args) \<and>
                (args_op args = WriteOp_Delete \<longrightarrow>
                   (kvdk_assert_on bld \<longrightarrow>
                      lookup_s lr = Ok \<and> entry_type (entry lr) = HashElem \<and>
                      entry_status (entry lr) = Normal \<and>
                      (record_status r = Normal \<longrightarrow> 1 \<le> list_size hl)) \<and>
                   (c_assert_on bld \<longrightarrow>
                      RecordSize (InternalKey hl (args_key args)) [] \<le>
                        space_size (args_space args))))))"

text \<open>The calls a finished write has made.\<close>

definition calls_of :: "(WriteResult \<times> HashList) outcome option \<Rightarrow> Call list option" where
  "calls_of x = (case x of Some (Return (ret, hl)) \<Rightarrow> Some (calls hl) | _ \<Rightarrow> None)"


text \<open>The record type the engine holds at an address.\<close>

definition type_at :: "KVEngine \<Rightarrow> addr \<Rightarrow> RecordType option" where
  "type_at eng a = map_option meta_type (data_entries eng a)"

text \<open>An old data record that points at a data record of the engine.\<close>

definition data_ok :: "KVEngine \<Rightarrow> OldDataRecord \<Rightarrow> bool" where
  "data_ok eng r =
     (type_at eng (pmem_data_record r) = Some StringDataRecord \<or>
      type_at eng (pmem_data_record r) = Some SortedDataRecord)"

text \<open>The space of the data entry at an address: its offset and the size in its header.\<close>

definition entry_space :: "KVEngine \<Rightarrow> addr \<Rightarrow> SpaceEntry" where
  "entry_space eng a =
     \<lparr>space_offset = a,
      space_size = (case data_entries eng a of
                      None \<Rightarrow> 0 | Some de \<Rightarrow> ucast (header_record_size de))\<rparr>"

text \<open>
  The record a hash entry leads to: the record it indexes, or the record of the skiplist
  node it indexes.
\<close>

definition indexed_record :: "KVEngine \<Rightarrow> CleanerHashEntry \<Rightarrow> addr option" where
  "indexed_record eng he =
     (if offset_type he = HashOffsetType_DLRecord then index he
      else if offset_type he = HashOffsetType_SkiplistNode
      then (case index he of None \<Rightarrow> None | Some n \<Rightarrow> skiplist_nodes eng n)
      else None)"

text \<open>
  The hash entry of an old delete record still points at the delete record: for a string
  record with its index pointer, for a sorted record with the record its index leads to.
\<close>

definition string_indexed :: "KVEngine \<Rightarrow> OldDeleteRecord \<Rightarrow> bool" where
  "string_indexed eng r =
     (type_at eng (pmem_delete_record r) = Some StringDeleteRecord \<and>
      (case hash_entries eng (hash_entry_ref r) of
         None \<Rightarrow> False | Some he \<Rightarrow> index he = Some (pmem_delete_record r)))"

definition sorted_indexed :: "KVEngine \<Rightarrow> OldDeleteRecord \<Rightarrow> bool" where
  "sorted_indexed eng r =
     (type_at eng (pmem_delete_record r) = Some SortedDeleteRecord \<and>
      (case hash_entries eng (hash_entry_ref r) of
         None \<Rightarrow> False | Some he \<Rightarrow> indexed_record eng he = Some (pmem_delete_record r)))"

definition indexes_tombstone :: "KVEngine \<Rightarrow> OldDeleteRecord \<Rightarrow> bool" where
  "indexes_tombstone eng r = (string_indexed eng r \<or> sorted_indexed eng r)"

text \<open>The data entries of an engine after those at the addresses \<open>S\<close> were destroyed.\<close>

definition destroyed_in :: "KVEngine \<Rightarrow> addr set \<Rightarrow> addr \<Rightarrow> DataEntry option" where
  "destroyed_in eng S =
     (\<lambda>a. map_option (\<lambda>de. if a \<in> S then de\<lparr>destroyed := True\<rparr> else de) (data_entries eng a))"

text \<open>
  The hash entries of an engine after those were cleared that pointed at one of the old
  delete records \<open>rs\<close>.
\<close>

definition cleared_in :: "KVEngine \<Rightarrow> OldDeleteRecord list \<Rightarrow> nat \<Rightarrow> CleanerHashEntry option" where
  "cleared_in eng rs =
     (\<lambda>x. if \<exists>r\<in>set rs. hash_entry_ref r = x \<and> indexes_tombstone eng r
          then Some CleanerHashEntry_empty else hash_entries eng x)"

text \<open>The skiplist node that goes to \<^verbatim>\<open>Skiplist::Purge\<close> with an old delete record.\<close>

definition purge_node :: "KVEngine \<Rightarrow> OldDeleteRecord \<Rightarrow> addr option" where
  "purge_node eng r =
     (case hash_entries eng (hash_entry_ref r) of
        None \<Rightarrow> None
      | Some he \<Rightarrow> if offset_type he = HashOffsetType_SkiplistNode then index he else None)"

text \<open>
  The calls of \<^verbatim>\<open>Skiplist::Purge\<close> expected for the old delete records \<open>rs\<close> when \<open>n\<close> of the
  coming calls meet contention: for every sorted delete record that its hash entry still
  points at, one call for each contention that is left, answered false, and then the call
  that is answered true.
\<close>

fun purge_log :: "KVEngine \<Rightarrow> nat \<Rightarrow> OldDeleteRecord list \<Rightarrow> (addr \<times> addr option \<times> bool) list" where
  "purge_log eng n [] = []"
| "purge_log eng n (r # rs) =
     (if sorted_indexed eng r
      then replicate n (pmem_delete_record r, purge_node eng r, False) @
           [(pmem_delete_record r, purge_node eng r, True)] @ purge_log eng 0 rs
      else purge_log eng n rs)"

text \<open>
  The engine after the old delete records \<open>rs\<close> were purged one after the other: the hash
  entries that pointed at one of them are cleared, the calls of \<^verbatim>\<open>Skiplist::Purge\<close> are
  made, and the contention is used up when there was such a call.
\<close>

definition after_deletes :: "KVEngine \<Rightarrow> OldDeleteRecord list \<Rightarrow> KVEngine" where
  "after_deletes eng rs =
     eng\<lparr>hash_entries := cleared_in eng rs,
         purge_races := (if \<exists>r\<in>set rs. sorted_indexed eng r then 0 else purge_races eng),
         purge_calls := purge_calls eng @ purge_log eng (purge_races eng) rs\<rparr>"

text \<open>
  An old delete record that can be purged: it points at a delete record and at a hash entry,
  and for a sorted delete record the hash entry indexes a record or a skiplist node with
  its record.
\<close>

definition delete_ok :: "KVEngine \<Rightarrow> OldDeleteRecord \<Rightarrow> bool" where
  "delete_ok eng r =
     (case hash_entries eng (hash_entry_ref r) of
        None \<Rightarrow> False
      | Some he \<Rightarrow>
          type_at eng (pmem_delete_record r) = Some StringDeleteRecord \<or>
          (type_at eng (pmem_delete_record r) = Some SortedDeleteRecord \<and>
           (offset_type he = HashOffsetType_DLRecord \<or>
            (offset_type he = HashOffsetType_SkiplistNode \<and> indexed_record eng he \<noteq> None))))"

text \<open>
  The old delete records \<open>rs\<close> can be purged one after the other, after the records \<open>done\<close>:
  each of them can be purged, and the hash entry of a sorted delete record was not cleared
  with one of the records before it.
\<close>

fun deletes_ok :: "KVEngine \<Rightarrow> OldDeleteRecord list \<Rightarrow> OldDeleteRecord list \<Rightarrow> bool" where
  "deletes_ok eng done [] = True"
| "deletes_ok eng done (r # rs) =
     (delete_ok eng r \<and>
      (type_at eng (pmem_delete_record r) = Some SortedDeleteRecord \<longrightarrow>
         \<not> (\<exists>r'\<in>set done. hash_entry_ref r' = hash_entry_ref r \<and> indexes_tombstone eng r')) \<and>
      deletes_ok eng (done @ [r]) rs)"

subsection \<open>A small collection for the examples\<close>

text \<open>
  Collection 1 with the header at offset 64, the live element \<open>a\<close> at 128 and the
  tombstone of \<open>b\<close> at 192, linked in this order; the allocator has two spaces left.
\<close>

definition ex_build :: build where
  "ex_build = \<lparr>kvdk_assert_on = True, c_assert_on = True\<rparr>"

definition ex_release :: build where
  "ex_release = \<lparr>kvdk_assert_on = False, c_assert_on = False\<rparr>"

definition ex_header :: DLRecord where
  "ex_header = ConstructDLRecord 128 1 HashHeader Normal None 192 128 ''h'' (EncodeID 1) 0"

definition ex_a :: DLRecord where
  "ex_a = ConstructDLRecord 128 10 HashElem Normal None 64 192 (EncodeID 1 @ ''a'') ''1'' 0"

definition ex_b :: DLRecord where
  "ex_b = ConstructDLRecord 128 20 HashElem Outdated None 128 64 (EncodeID 1 @ ''b'') [] 0"

definition ex_pmem :: pmem where
  "ex_pmem = Map.empty(64 \<mapsto> ex_header, 128 \<mapsto> ex_a, 192 \<mapsto> ex_b)"

definition ex_table :: HashTable where
  "ex_table =
     \<lparr>slots = Map.empty
        ((EncodeID 1 @ ''a'', HashElem) \<mapsto>
           \<lparr>entry_type = HashElem, entry_status = Normal,
            index_type = PointerType_DLRecord, index_ptr = Some 128\<rparr>,
         (EncodeID 1 @ ''b'', HashElem) \<mapsto>
           \<lparr>entry_type = HashElem, entry_status = Outdated,
            index_type = PointerType_DLRecord, index_ptr = Some 192\<rparr>),
      index_full = False\<rparr>"

definition ex_hl :: HashList where
  "ex_hl =
     \<lparr>self = 7, collection_name = ''h'', collection_id = 1, dl_header = 64, pmem = ex_pmem,
      list_size = 1, hash_table = ex_table,
      grants = [\<lparr>space_offset = 256, space_size = 128\<rparr>,
                \<lparr>space_offset = 384, space_size = 128\<rparr>],
      update_races = 0, calls = []\<rparr>"

text \<open>The same collection with an allocator that has nothing left.\<close>

definition ex_hl_full :: HashList where
  "ex_hl_full = ex_hl\<lparr>grants := []\<rparr>"

text \<open>The same collection when other threads will disturb the next two calls of Update.\<close>

definition ex_hl_raced :: HashList where
  "ex_hl_raced = ex_hl\<lparr>update_races := 2\<rparr>"

text \<open>Prepared arguments on the example collection: a put over the tombstone, a delete of \<open>a\<close>.\<close>

definition ex_put_b :: HashWriteArgs where
  "ex_put_b =
     (InitWriteArgs ex_hl ''b'' ''3'' WriteOp_Put)
       \<lparr>args_ts := 40,
        args_lookup_result := Lookup True ex_table (EncodeID 1 @ ''b'') HashElem,
        args_space := \<lparr>space_offset = 256, space_size = 128\<rparr>\<rparr>"

definition ex_delete_a :: HashWriteArgs where
  "ex_delete_a =
     (InitWriteArgs ex_hl ''a'' [] WriteOp_Delete)
       \<lparr>args_ts := 40,
        args_lookup_result := Lookup False ex_table (EncodeID 1 @ ''a'') HashElem,
        args_space := \<lparr>space_offset = 256, space_size = 128\<rparr>\<rparr>"

text \<open>A put over the live element \<open>a\<close> and a put of the new key \<open>c\<close>.\<close>

definition ex_put_a :: HashWriteArgs where
  "ex_put_a =
     (InitWriteArgs ex_hl ''a'' ''2'' WriteOp_Put)
       \<lparr>args_ts := 40,
        args_lookup_result := Lookup True ex_table (EncodeID 1 @ ''a'') HashElem,
        args_space := \<lparr>space_offset = 256, space_size = 128\<rparr>\<rparr>"

definition ex_put_c :: HashWriteArgs where
  "ex_put_c =
     (InitWriteArgs ex_hl ''c'' ''2'' WriteOp_Put)
       \<lparr>args_ts := 40,
        args_lookup_result := Lookup True ex_table (EncodeID 1 @ ''c'') HashElem,
        args_space := \<lparr>space_offset = 256, space_size = 128\<rparr>\<rparr>"

subsection \<open>A small cleaner for the examples\<close>

text \<open>
  One snapshot at 50 is alive and the clock shows 100. A worker has cached two old data
  records (newer versions at 40 and 60). Three old delete records are queued: a string
  delete record and a sorted delete record, both with a newer version at 45 and both still
  indexed, the sorted one through a skiplist node, and a string delete record with a newer
  version at 60. The next call of \<^verbatim>\<open>Skiplist::Purge\<close> will meet contention. Two batches of
  space are pending, entered at 30 and at 70.
\<close>

definition ex_engine :: KVEngine where
  "ex_engine =
     \<lparr>data_entries = Map.empty
        (512 \<mapsto> \<lparr>meta_type = StringDataRecord, header_record_size = 128, destroyed = False\<rparr>,
         640 \<mapsto> \<lparr>meta_type = SortedDataRecord, header_record_size = 64, destroyed = False\<rparr>,
         768 \<mapsto> \<lparr>meta_type = StringDeleteRecord, header_record_size = 64, destroyed = False\<rparr>,
         832 \<mapsto> \<lparr>meta_type = HashElem, header_record_size = 64, destroyed = False\<rparr>,
         1024 \<mapsto> \<lparr>meta_type = SortedDeleteRecord, header_record_size = 192, destroyed = False\<rparr>,
         1280 \<mapsto> \<lparr>meta_type = StringDeleteRecord, header_record_size = 64, destroyed = False\<rparr>),
      hash_entries = Map.empty
        (3 \<mapsto> \<lparr>offset_type = HashOffsetType_Other 1, index = Some 768\<rparr>,
         4 \<mapsto> \<lparr>offset_type = HashOffsetType_SkiplistNode, index = Some 2048\<rparr>,
         5 \<mapsto> \<lparr>offset_type = HashOffsetType_Other 1, index = Some 1280\<rparr>),
      skiplist_nodes = Map.empty(2048 \<mapsto> 1024),
      version_controller = \<lparr>clock = 100, active_snapshots = [50], oldest_snapshot_ts = 0\<rparr>,
      batch_freed = [],
      purge_races = 1,
      purge_calls = []\<rparr>"

definition ex_cleaner :: OldRecordsCleaner where
  "ex_cleaner =
     \<lparr>thread_cache =
        [\<lparr>old_data_records =
            [\<lparr>pmem_data_record = 512, newer_version_timestamp = 40\<rparr>,
             \<lparr>pmem_data_record = 640, newer_version_timestamp = 60\<rparr>],
          old_delete_records = []\<rparr>],
      global_old_data_records = [],
      global_old_delete_records =
        [[\<lparr>pmem_delete_record = 768, delete_newer_version_timestamp = 45, hash_entry_ref = 3\<rparr>,
          \<lparr>pmem_delete_record = 1024, delete_newer_version_timestamp = 45, hash_entry_ref = 4\<rparr>,
          \<lparr>pmem_delete_record = 1280, delete_newer_version_timestamp = 60, hash_entry_ref = 5\<rparr>]],
      pending_free_space_entries =
        [\<lparr>entries = [\<lparr>space_offset = 896, space_size = 64\<rparr>], free_ts = 30\<rparr>,
         \<lparr>entries = [\<lparr>space_offset = 960, space_size = 64\<rparr>], free_ts = 70\<rparr>],
      last_clean_all_ts = 0,
      kv_engine = ex_engine\<rparr>"

section \<open>Properties of the collaborators and of the write path\<close>

lemma raced_fields [simp]:
  "pmem (raced hl wa ex) = pmem hl" "self (raced hl wa ex) = self hl"
  "collection_id (raced hl wa ex) = collection_id hl"
  "collection_name (raced hl wa ex) = collection_name hl"
  "dl_header (raced hl wa ex) = dl_header hl" "hash_table (raced hl wa ex) = hash_table hl"
  "list_size (raced hl wa ex) = list_size hl" "grants (raced hl wa ex) = grants hl"
  "update_races (raced hl wa ex) = 0"
  "calls (raced hl wa ex) = calls hl @ replicate (update_races hl) (Call_Update wa ex Fail)"
  by (simp_all add: raced_def)

lemma update_retry_Ok:
  "DLList_Update hl args ex = Return (Ok, hl') \<Longrightarrow>
   update_retry bld hl args ex = Some (Return (Ok, hl'))"
  by (subst update_retry.simps) simp

text \<open>A call that fails is followed by another call.\<close>

lemma update_retry_again:
  "DLList_Update hl wa ex = Return (Fail, h1) \<Longrightarrow>
   update_retry bld hl wa ex = update_retry bld h1 wa ex"
  by (subst update_retry.simps) simp

text \<open>The loop makes the disturbed calls one after the other.\<close>

lemma update_retry_raced:
  assumes "linked (pmem hl) ex" and "pmem hl ex = Some r"
  shows "update_retry bld hl wa ex = update_retry bld (raced hl wa ex) wa ex"
  using assms
proof (induction "update_races hl" arbitrary: hl)
  case 0
  then have "raced hl wa ex = hl" by (simp add: raced_def)
  then show ?case by simp
next
  case (Suc n)
  let ?h = "hl\<lparr>calls := calls hl @ [Call_Update wa ex Fail], update_races := n\<rparr>"
  have n: "update_races hl = Suc n" using Suc.hyps(2) by simp
  have u: "DLList_Update hl wa ex = Return (Fail, ?h)"
    using Suc.prems n by (simp add: DLList_Update_def Let_def)
  have "update_retry bld hl wa ex = update_retry bld ?h wa ex"
    by (rule update_retry_again[OF u])
  also have "\<dots> = update_retry bld (raced ?h wa ex) wa ex"
    by (rule Suc.hyps(1)) (use Suc.prems in simp_all)
  also have "raced ?h wa ex = raced hl wa ex"
    using n by (simp add: raced_def)
  finally show ?case .
qed

lemma update_retry_linked_aux:
  assumes "update_retry bld hl args ex = Some y"
  shows "(\<exists>st hl'. y = Return (st, hl')) \<longrightarrow> linked (pmem hl) ex"
proof (rule update_retry.raw_induct
         [where P = "\<lambda>bld hl args ex y. (\<exists>st hl'. y = Return (st, hl')) \<longrightarrow> linked (pmem hl) ex",
          OF _ assms], goal_cases)
  case (1 f b h a e y)
  show ?case
  proof (cases "linked (pmem h) e")
    case True
    then show ?thesis by simp
  next
    case False
    show ?thesis
    proof
      assume "\<exists>st hl'. y = Return (st, hl')"
      then obtain st hl' where y: "y = Return (st, hl')" by blast
      from 1(2) y obtain r where r: "pmem h e = Some r"
        by (auto simp: DLList_Update_def Let_def split: option.splits)
      with False have u: "DLList_Update h a e =
          Return (Fail, h\<lparr>calls := calls h @ [Call_Update a e Fail]\<rparr>)"
        by (simp add: DLList_Update_def Let_def)
      with 1(2) y have "f b (h\<lparr>calls := calls h @ [Call_Update a e Fail]\<rparr>) a e = Some y"
        by (auto split: if_splits)
      from 1(1)[OF this] y show "linked (pmem h) e" by simp
    qed
  qed
qed

lemma update_retry_linked:
  "update_retry bld hl args ex = Some (Return (st, hl')) \<Longrightarrow> linked (pmem hl) ex"
  using update_retry_linked_aux by blast

lemma linked_Update:
  "linked (pmem hl) ex \<Longrightarrow> update_races hl = 0 \<Longrightarrow>
   \<exists>hl'. DLList_Update hl args ex = Return (Ok, hl')"
  by (auto simp: DLList_Update_def linked_def Let_def split: option.splits)

text \<open>
  On a linked record the loop ends: after the disturbed calls, the next call answers \<open>Ok\<close>.
\<close>

lemma update_retry_returns:
  assumes "linked (pmem hl) ex"
  shows "\<exists>hl'. DLList_Update (raced hl wa ex) wa ex = Return (Ok, hl') \<and>
               update_retry bld hl wa ex = Some (Return (Ok, hl'))"
proof -
  from assms obtain r where r: "pmem hl ex = Some r"
    by (auto simp: linked_def split: option.splits)
  obtain h where h: "DLList_Update (raced hl wa ex) wa ex = Return (Ok, h)"
    using linked_Update[of "raced hl wa ex" ex wa] assms by auto
  from update_retry_raced[OF assms r, of bld wa] update_retry_Ok[OF h, of bld] h
  show ?thesis by simp
qed

lemma update_retry_Return:
  assumes "update_retry bld hl args ex = Some (Return (st, hl'))"
  shows "st = Ok \<and> DLList_Update (raced hl args ex) args ex = Return (Ok, hl')"
proof -
  have "linked (pmem hl) ex" using update_retry_linked[OF assms] .
  from update_retry_returns[OF this, of args bld] assms show ?thesis by auto
qed

lemma DLList_Update_frame:
  "DLList_Update hl args ex = Return (st, hl') \<Longrightarrow>
   self hl' = self hl \<and> collection_id hl' = collection_id hl \<and>
   collection_name hl' = collection_name hl \<and> dl_header hl' = dl_header hl \<and>
   hash_table hl' = hash_table hl \<and> list_size hl' = list_size hl \<and> grants hl' = grants hl \<and>
   calls hl' = calls hl @ [Call_Update args ex st]"
  by (auto simp: DLList_Update_def Let_def split: option.splits if_splits)

lemma hash_insert_post:
  "hash_insert hl lr t st p pt = Return hl' \<Longrightarrow> entry_ptr lr = Some sl \<Longrightarrow>
   collection_id hl' = collection_id hl \<and> self hl' = self hl \<and> pmem hl' = pmem hl \<and>
   list_size hl' = list_size hl \<and> dl_header hl' = dl_header hl \<and> grants hl' = grants hl \<and>
   calls hl' = calls hl @ [Call_Insert (Some sl) t st p pt] \<and>
   slots (hash_table hl') = (slots (hash_table hl))(sl \<mapsto>
      \<lparr>entry_type = t, entry_status = st, index_type = pt, index_ptr = p\<rparr>)"
  by (auto simp: hash_insert_def split: option.splits)

lemma UpdateSize_frame:
  "UpdateSize bld hl d = Return hl' \<Longrightarrow>
   hl' = hl\<lparr>list_size := list_size hl + word_of_int d\<rparr>"
  by (auto simp: UpdateSize_def split: if_splits)

lemma deletePrepared_post:
  assumes "deletePrepared bld hl lr k ts sp = Some (Return (ret, hl'))"
  shows "\<exists>ex sl. index_ptr (entry lr) = Some ex \<and> entry_ptr lr = Some sl \<and>
           collection_id hl' = collection_id hl \<and> self hl' = self hl \<and>
           list_size hl' = list_size hl \<and>
           slots (hash_table hl') = (slots (hash_table hl))(sl \<mapsto>
              \<lparr>entry_type = HashElem, entry_status = Outdated,
               index_type = PointerType_DLRecord, index_ptr = Some (space_offset sp)\<rparr>) \<and>
           ret = WriteResult_default\<lparr>wr_s := Ok, existing_record := Some ex,
                                     write_record := Some (space_offset sp)\<rparr>"
  using assms
  apply (simp add: deletePrepared_def Let_def split: if_splits option.splits outcome.splits prod.splits)
  apply (auto dest!: update_retry_Return DLList_Update_frame simp: hash_insert_def split: option.splits)
  done

lemma Allocate_empty:
  "next_grant_empty hl \<Longrightarrow> grants hl1 = grants hl \<Longrightarrow>
   space_size (fst (Allocate hl1 n)) = 0 \<and>
   pmem (snd (Allocate hl1 n)) = pmem hl1 \<and> dl_header (snd (Allocate hl1 n)) = dl_header hl1 \<and>
   hash_table (snd (Allocate hl1 n)) = hash_table hl1 \<and>
   list_size (snd (Allocate hl1 n)) = list_size hl1"
  by (auto simp: next_grant_empty_def Allocate_def SpaceEntry_default_def split: list.splits)

lemma PrepareWrite_zero_grant:
  assumes z: "next_grant_empty hl"
      and b: "args_hlist args = self hl"
      and a: "kvdk_assert_on bld \<longrightarrow> args_op args = WriteOp_Put \<or> args_value args = []"
      and lr: "lr = Lookup (args_op args \<noteq> WriteOp_Delete) (hash_table hl)
                      (InternalKey hl (args_key args)) HashElem"
      and need: "(lookup_s lr = NotFound \<and> args_op args = WriteOp_Put) \<or>
                 (lookup_s lr = Ok \<and>
                  \<not> (args_op args = WriteOp_Delete \<and> entry_status (entry lr) = Outdated))"
  shows "\<exists>args' hl'. PrepareWrite bld hl args ts = Return (MemoryOverflow, args', hl') \<and>
                    same_collection hl hl'"
proof -
  let ?hl1 = "hl\<lparr>calls := calls hl @ [Call_Lookup (args_op args \<noteq> WriteOp_Delete)
                 (InternalKey hl (args_key args)) HashElem]\<rparr>"
  have g: "grants ?hl1 = grants hl" by simp
  note A = Allocate_empty[OF z g]
  show ?thesis
    using b a lr need A
    by (auto simp: PrepareWrite_def hash_lookup_def Let_def same_collection_def
             case_prod_beta)
qed

lemma Modify_zero_grant:
  assumes z: "next_grant_empty hl"
      and lr: "lr = Lookup True (hash_table hl) (InternalKey hl k) HashElem"
      and res: "resolved hl lr"
      and wr: "fst (modify_func (existing_value hl lr)) = ModifyOperation_Write \<or>
               fst (modify_func (existing_value hl lr)) = ModifyOperation_Delete"
  shows "\<exists>ret hl'. Modify bld rnd hl k modify_func ts = Some (Return (ret, hl')) \<and>
                   wr_s ret = MemoryOverflow \<and> write_record ret = None \<and>
                   same_collection hl hl'"
proof -
  let ?hl1 = "hl\<lparr>calls := calls hl @ [Call_Lookup True (InternalKey hl k) HashElem]\<rparr>"
  have g: "grants ?hl1 = grants hl" by simp
  note A = Allocate_empty[OF z g]
  obtain mop nv where mf: "modify_func (existing_value hl lr) = (mop, nv)"
    by (cases "modify_func (existing_value hl lr)") auto
  with wr have mop: "mop = ModifyOperation_Write \<or> mop = ModifyOperation_Delete" by simp
  show ?thesis
  proof (cases "lookup_s lr = Ok")
    case True
    with res obtain e r where e: "index_ptr (entry lr) = Some e" and r: "pmem hl e = Some r"
      by (auto simp: resolved_def found_record_def split: option.splits)
    have ev: "existing_value hl lr = (if record_status r \<noteq> Outdated then Some (Value r) else None)"
      using True e r by (simp add: existing_value_def found_record_def)
    show ?thesis
      using True e r mf ev lr mop A
      by (auto simp: Modify_def hash_lookup_def Let_def WriteResult_default_def
               same_collection_def case_prod_beta)
  next
    case False
    with res have nf: "lookup_s lr = NotFound" by (simp add: resolved_def)
    have ev: "existing_value hl lr = None"
      using False by (simp add: existing_value_def found_record_def)
    show ?thesis
      using False nf mf ev lr mop A
      by (auto simp: Modify_def hash_lookup_def Let_def WriteResult_default_def
               same_collection_def case_prod_beta)
  qed
qed

lemma PrepareWrite_delete_noop:
  assumes "tombstone_or_absent hl k"
  shows "PrepareWrite bld hl (InitWriteArgs hl k [] WriteOp_Delete) ts =
           Return (Ok,
             (InitWriteArgs hl k [] WriteOp_Delete)
               \<lparr>args_ts := ts,
                args_lookup_result := Lookup False (hash_table hl) (InternalKey hl k) HashElem\<rparr>,
             hl\<lparr>calls := calls hl @ [Call_Lookup False (InternalKey hl k) HashElem]\<rparr>)"
  using assms
  by (auto simp: tombstone_or_absent_def PrepareWrite_def InitWriteArgs_def hash_lookup_def
           Lookup_def Let_def split: option.splits)

lemma Delete_noop:
  assumes "tombstone_or_absent hl k"
  shows "Delete bld rnd hl k ts =
           Some (Return (WriteResult_default,
                   hl\<lparr>calls := calls hl @ [Call_Lookup False (InternalKey hl k) HashElem]\<rparr>))"
  unfolding Delete_def Let_def PrepareWrite_delete_noop[OF assms]
  by (simp add: InitWriteArgs_def SpaceEntry_default_def WriteResult_default_def)

lemma Delete_leaves_tombstone:
  assumes d: "Delete bld rnd hl k ts = Some (Return (ret, hl'))" and ok: "wr_s ret = Ok"
  shows "tombstone_or_absent hl' k"
proof (cases "tombstone_or_absent hl k")
  case True
  from d Delete_noop[OF True, of bld rnd ts]
  have "hl' = hl\<lparr>calls := calls hl @ [Call_Lookup False (InternalKey hl k) HashElem]\<rparr>" by simp
  with True show ?thesis by (simp add: tombstone_or_absent_def InternalKey_def)
next
  case False
  let ?ik = "InternalKey hl k"
  from False obtain e where e: "slots (hash_table hl) (?ik, HashElem) = Some e"
    and en: "entry_status e = Normal"
    by (auto simp: tombstone_or_absent_def split: option.splits
             intro: RecordStatus.exhaust)
  let ?lr = "\<lparr>lookup_s = Ok, entry_ptr = Some (?ik, HashElem), entry = e\<rparr>"
  let ?hl1 = "hl\<lparr>calls := calls hl @ [Call_Lookup False ?ik HashElem]\<rparr>"
  obtain sp hl2 where al: "Allocate ?hl1 (RecordSize ?ik []) = (sp, hl2)"
    by (cases "Allocate ?hl1 (RecordSize ?ik [])") auto
  have fr: "self hl2 = self hl \<and> collection_id hl2 = collection_id hl \<and>
            hash_table hl2 = hash_table hl"
    using al by (auto simp: Allocate_def split: list.splits)
  have pw: "PrepareWrite bld hl (InitWriteArgs hl k [] WriteOp_Delete) ts =
      (if space_size sp = 0
       then Return (MemoryOverflow, (InitWriteArgs hl k [] WriteOp_Delete)
               \<lparr>args_ts := ts, args_lookup_result := ?lr, args_space := sp\<rparr>, hl2)
       else Return (Ok, (InitWriteArgs hl k [] WriteOp_Delete)
               \<lparr>args_ts := ts, args_lookup_result := ?lr, args_space := sp\<rparr>, hl2))"
    using e en al
    by (simp add: PrepareWrite_def InitWriteArgs_def hash_lookup_def Lookup_def Let_def)
  show ?thesis
  proof (cases "space_size sp = 0")
    case True
    with d pw ok show ?thesis by (auto simp: Delete_def Let_def)
  next
    case nz: False
    then have pos: "space_size sp > 0" by (simp add: word_greater_zero_iff)
    from d pw nz pos have w: "Write bld rnd hl2 ((InitWriteArgs hl k [] WriteOp_Delete)
               \<lparr>args_ts := ts, args_lookup_result := ?lr, args_space := sp\<rparr>) =
               Some (Return (ret, hl'))"
      by (simp add: Delete_def Let_def)
    then obtain r1 h1 where dp: "deletePrepared bld hl2 ?lr k ts sp = Some (Return (r1, h1))"
      and h': "collection_id hl' = collection_id h1 \<and> hash_table hl' = hash_table h1"
      using fr
      by (auto simp: Write_def InitWriteArgs_def split: option.splits outcome.splits if_splits
               dest!: UpdateSize_frame)
    from deletePrepared_post[OF dp] h' fr show ?thesis
      by (auto simp: tombstone_or_absent_def InternalKey_def)
  qed
qed

lemma set_next_status:
  "set_next h a v x = Some r1 \<Longrightarrow> \<exists>r0. h x = Some r0 \<and> record_status r0 = record_status r1 \<and>
     old_version r0 = old_version r1 \<and> Key r0 = Key r1 \<and> Value r0 = Value r1 \<and>
     timestamp r0 = timestamp r1 \<and> record_type r0 = record_type r1 \<and>
     expire_time r0 = expire_time r1 \<and> record_size r0 = record_size r1"
  by (auto simp: set_next_def split: option.splits if_splits)

lemma set_prev_status:
  "set_prev h a v x = Some r1 \<Longrightarrow> \<exists>r0. h x = Some r0 \<and> record_status r0 = record_status r1 \<and>
     old_version r0 = old_version r1 \<and> Key r0 = Key r1 \<and> Value r0 = Value r1 \<and>
     timestamp r0 = timestamp r1 \<and> record_type r0 = record_type r1 \<and>
     expire_time r0 = expire_time r1 \<and> record_size r0 = record_size r1"
  by (auto simp: set_prev_def split: option.splits if_splits)

lemma set_next_dom: "(set_next h a v x = None) = (h x = None)"
  by (auto simp: set_next_def split: option.splits)

lemma set_prev_dom: "(set_prev h a v x = None) = (h x = None)"
  by (auto simp: set_prev_def split: option.splits)

text \<open>What a successful update leaves in the arena.\<close>

lemma DLList_Update_pmem:
  assumes u: "DLList_Update hl wa ex = Return (Ok, h1)"
  shows "(\<exists>r'. pmem h1 (space_offset (wa_space wa)) = Some r' \<and> old_version r' = Some ex \<and>
               Key r' = wa_key wa \<and> Value r' = wa_value wa \<and>
               record_status r' = wa_status wa \<and> timestamp r' = wa_ts wa) \<and>
         (\<forall>a r0. pmem hl a = Some r0 \<longrightarrow> a \<noteq> space_offset (wa_space wa) \<longrightarrow>
               (\<exists>r1. pmem h1 a = Some r1 \<and> record_status r1 = record_status r0))"
proof -
  from u obtain r where r: "pmem hl ex = Some r" and l: "linked (pmem hl) ex"
    and z: "update_races hl = 0"
    by (auto simp: DLList_Update_def Let_def split: option.splits if_splits)
  let ?n = "space_offset (wa_space wa)"
  let ?new = "ConstructDLRecord (space_size (wa_space wa)) (wa_ts wa)
                        (wa_type wa) (wa_status wa) (Some ex) (prev_offset r) (next_offset r)
                        (wa_key wa) (wa_value wa) 0"
  let ?h1 = "(pmem hl)(?n \<mapsto> ?new)"
  let ?h3 = "set_prev (set_next ?h1 (prev_offset r) ?n) (next_offset r) ?n"
  from u r l z have p: "pmem h1 = ?h3"
    by (auto simp: DLList_Update_def Let_def)
  have a: "\<exists>r'. ?h3 ?n = Some r' \<and> old_version r' = Some ex \<and>
               Key r' = wa_key wa \<and> Value r' = wa_value wa \<and>
               record_status r' = wa_status wa \<and> timestamp r' = wa_ts wa"
    by (auto simp: set_next_def set_prev_def ConstructDLRecord_def split: option.splits)
  have b: "\<exists>r1. ?h3 a = Some r1 \<and> record_status r1 = record_status r0"
    if "pmem hl a = Some r0" "a \<noteq> ?n" for a r0
    using that by (auto simp: set_next_def set_prev_def split: option.splits)
  from a b p show ?thesis by simp
qed

lemma DLList_Push_frame:
  assumes "(if pb then DLList_PushBack hl wa else DLList_PushFront hl wa) = Return (st, h1)"
  shows "st = Ok \<and> self h1 = self hl \<and> collection_id h1 = collection_id hl \<and>
   collection_name h1 = collection_name hl \<and> dl_header h1 = dl_header hl \<and>
   hash_table h1 = hash_table hl \<and> list_size h1 = list_size hl \<and> grants h1 = grants hl \<and>
   calls h1 = calls hl @ [if pb then Call_PushBack wa else Call_PushFront wa]"
  using assms
  by (auto simp: DLList_PushBack_def DLList_PushFront_def Let_def split: option.splits if_splits)

lemma DLList_Push_returns:
  assumes "pmem hl (dl_header hl) \<noteq> None"
  shows "\<exists>h1. (if pb then DLList_PushBack hl wa else DLList_PushFront hl wa) = Return (Ok, h1)"
  using assms
  by (auto simp: DLList_PushBack_def DLList_PushFront_def Let_def split: option.splits)

text \<open>The outcome of \<^verbatim>\<open>PrepareWrite\<close> for a put, read backwards.\<close>

lemma PrepareWrite_put_Ok:
  assumes "PrepareWrite bld hl (InitWriteArgs hl k v WriteOp_Put) ts = Return (Ok, args, hl1)"
  shows "\<exists>g gs. grants hl = g # gs \<and> space_size g \<noteq> 0 \<and>
           (lookup_s (Lookup True (hash_table hl) (InternalKey hl k) HashElem) = Ok \<or>
            lookup_s (Lookup True (hash_table hl) (InternalKey hl k) HashElem) = NotFound) \<and>
           args = (InitWriteArgs hl k v WriteOp_Put)
                    \<lparr>args_ts := ts,
                     args_lookup_result := Lookup True (hash_table hl) (InternalKey hl k) HashElem,
                     args_space := g\<rparr> \<and>
           hl1 = hl\<lparr>grants := gs,
                    calls := calls hl @ [Call_Lookup True (InternalKey hl k) HashElem,
                                         Call_Allocate (RecordSize (InternalKey hl k) v)]\<rparr>"
  using assms
  by (auto simp: PrepareWrite_def InitWriteArgs_def hash_lookup_def Let_def Allocate_def
           SpaceEntry_default_def
           split: if_splits Status.splits list.splits)

lemma Lookup_entry_ptr:
  "lookup_s (Lookup True ht k t) = Ok \<or> lookup_s (Lookup True ht k t) = NotFound \<Longrightarrow>
   entry_ptr (Lookup True ht k t) = Some (k, t)"
  by (auto simp: Lookup_def split: option.splits if_splits)

lemma DLList_Update_dom:
  assumes u: "DLList_Update hl wa ex = Return (Ok, h1)" and a: "pmem hl a \<noteq> None"
  shows "pmem h1 a \<noteq> None"
proof -
  from u obtain r where r: "pmem hl ex = Some r" and l: "linked (pmem hl) ex"
    and z: "update_races hl = 0"
    by (auto simp: DLList_Update_def Let_def split: option.splits if_splits)
  from u r l z have p: "pmem h1 =
      set_prev (set_next ((pmem hl)(space_offset (wa_space wa) \<mapsto>
         ConstructDLRecord (space_size (wa_space wa)) (wa_ts wa) (wa_type wa) (wa_status wa)
           (Some ex) (prev_offset r) (next_offset r) (wa_key wa) (wa_value wa) 0))
        (prev_offset r) (space_offset (wa_space wa))) (next_offset r) (space_offset (wa_space wa))"
    by (auto simp: DLList_Update_def Let_def)
  show ?thesis unfolding p using a by (simp add: set_next_dom set_prev_dom)
qed

lemma UpdateSize_plus: "UpdateSize bld hl 1 = Return (hl\<lparr>list_size := list_size hl + 1\<rparr>)"
  by (simp add: UpdateSize_def)

text \<open>A put over a linked record of the index.\<close>

lemma Write_put_existing:
  assumes bound: "args_hlist args = self hl" and opr: "args_op args = WriteOp_Put"
      and ok: "lookup_s (args_lookup_result args) = Ok"
      and ex: "index_ptr (entry (args_lookup_result args)) = Some ex"
      and sl: "entry_ptr (args_lookup_result args) = Some sl"
      and l: "linked (pmem hl) ex" and r: "pmem hl ex = Some r"
      and a: "kvdk_assert_on bld \<longrightarrow> timestamp r < args_ts args"
      and wa: "wa = \<lparr>wa_key = InternalKey hl (args_key args), wa_value = args_value args,
                     wa_type = HashElem, wa_status = Normal, wa_ts = args_ts args,
                     wa_space = args_space args\<rparr>"
  shows "\<exists>hl'. Write bld rnd hl args =
           Some (Return (WriteResult_default\<lparr>write_record := Some (space_offset (args_space args)),
                    hash_entry_ptr := Some sl, existing_record := Some ex\<rparr>, hl')) \<and>
           calls hl' = calls hl @ replicate (update_races hl) (Call_Update wa ex Fail) @
             [Call_Update wa ex Ok,
              Call_Insert (Some sl) HashElem Normal (Some (space_offset (args_space args)))
                PointerType_DLRecord] \<and>
           update_races hl' = 0 \<and>
           (\<exists>r'. pmem hl' (space_offset (args_space args)) = Some r' \<and> old_version r' = Some ex)"
proof -
  obtain h1 where u: "DLList_Update (raced hl wa ex) wa ex = Return (Ok, h1)"
    and ur: "update_retry bld hl wa ex = Some (Return (Ok, h1))"
    using update_retry_returns[OF l, of wa bld] by blast
  note fr = DLList_Update_frame[OF u]
  have ra: "update_races h1 = 0"
    using u by (auto simp: DLList_Update_def Let_def split: option.splits if_splits)
  from DLList_Update_pmem[OF u] obtain r' where
    r': "pmem h1 (space_offset (args_space args)) = Some r'" "old_version r' = Some ex"
    by (auto simp: wa)
  from DLList_Update_dom[OF u, of ex] r obtain r1 where r1: "pmem h1 ex = Some r1" by auto
  show ?thesis
    using bound opr ok ex sl r a ur fr r' r1 wa ra
    by (auto simp: Write_def putPrepared_def Let_def hash_insert_def WriteResult_default_def
             UpdateSize_plus)
qed

text \<open>A put of a key the index does not hold.\<close>

lemma Write_put_new:
  assumes bound: "args_hlist args = self hl" and opr: "args_op args = WriteOp_Put"
      and nf: "lookup_s (args_lookup_result args) \<noteq> Ok"
      and nf': "kvdk_assert_on bld \<longrightarrow> lookup_s (args_lookup_result args) = NotFound"
      and sl: "entry_ptr (args_lookup_result args) = Some sl"
      and h: "pmem hl (dl_header hl) \<noteq> None"
      and wa: "wa = \<lparr>wa_key = InternalKey hl (args_key args), wa_value = args_value args,
                     wa_type = HashElem, wa_status = Normal, wa_ts = args_ts args,
                     wa_space = args_space args\<rparr>"
  shows "\<exists>hl'. Write bld rnd hl args =
           Some (Return (WriteResult_default\<lparr>write_record := Some (space_offset (args_space args)),
                    hash_entry_ptr := Some sl\<rparr>, hl')) \<and>
           list_size hl' = list_size hl + 1 \<and>
           calls hl' = calls hl @ [if rnd mod 2 = 0 then Call_PushBack wa else Call_PushFront wa,
              Call_Insert (Some sl) HashElem Normal (Some (space_offset (args_space args)))
                PointerType_DLRecord]"
proof -
  obtain h1 where p: "(if rnd mod 2 = 0 then DLList_PushBack hl wa else DLList_PushFront hl wa)
                        = Return (Ok, h1)"
    using DLList_Push_returns[OF h] by blast
  note fr = DLList_Push_frame[OF p]
  show ?thesis
  proof (cases "rnd mod 2 = 0")
    case True
    with p have "DLList_PushBack hl wa = Return (Ok, h1)" by simp
    with True fr bound opr nf nf' sl wa show ?thesis
      by (auto simp: Write_def putPrepared_def Let_def hash_insert_def WriteResult_default_def
             UpdateSize_plus)
  next
    case False
    with p have "DLList_PushFront hl wa = Return (Ok, h1)" by simp
    with False fr bound opr nf nf' sl wa show ?thesis
      by (auto simp: Write_def putPrepared_def Let_def hash_insert_def WriteResult_default_def
             UpdateSize_plus)
  qed
qed

lemma Put_after_PrepareWrite:
  assumes pw: "PrepareWrite bld hl (InitWriteArgs hl k v WriteOp_Put) ts = Return (Ok, args, hl1)"
      and lr: "lr = args_lookup_result args"
      and wa: "wa = \<lparr>wa_key = InternalKey hl k, wa_value = v, wa_type = HashElem,
                     wa_status = Normal, wa_ts = ts, wa_space = args_space args\<rparr>"
      and n: "n = space_offset (args_space args)"
      and found: "lookup_s lr = Ok \<longrightarrow>
                    (\<exists>ex r. index_ptr (entry lr) = Some ex \<and> pmem hl ex = Some r \<and>
                            linked (pmem hl) ex \<and> (kvdk_assert_on bld \<longrightarrow> timestamp r < ts))"
      and new: "lookup_s lr = NotFound \<longrightarrow> pmem hl (dl_header hl) \<noteq> None"
  shows "\<exists>ret hl'. Put bld rnd hl k v ts = Some (Return (ret, hl')) \<and>
           (lookup_s lr = Ok \<longrightarrow>
              wr_s ret = Ok \<and> existing_record ret = index_ptr (entry lr) \<and>
              (\<exists>ex. index_ptr (entry lr) = Some ex \<and>
                 calls hl' = calls hl1 @ replicate (update_races hl) (Call_Update wa ex Fail) @
                   [Call_Update wa ex Ok,
                    Call_Insert (entry_ptr lr) HashElem Normal (Some n) PointerType_DLRecord] \<and>
                 update_races hl' = 0 \<and>
                 (\<exists>r'. pmem hl' n = Some r' \<and> old_version r' = Some ex))) \<and>
           (lookup_s lr = NotFound \<longrightarrow>
              wr_s ret = Ok \<and> existing_record ret = None \<and>
              calls hl' = calls hl1 @
                 [if rnd mod 2 = 0 then Call_PushBack wa else Call_PushFront wa,
                  Call_Insert (entry_ptr lr) HashElem Normal (Some n) PointerType_DLRecord])"
proof -
  from PrepareWrite_put_Ok[OF pw] obtain g gs where
    g: "grants hl = g # gs" "space_size g \<noteq> 0" and
    s: "lookup_s (Lookup True (hash_table hl) (InternalKey hl k) HashElem) = Ok \<or>
        lookup_s (Lookup True (hash_table hl) (InternalKey hl k) HashElem) = NotFound" and
    args: "args = (InitWriteArgs hl k v WriteOp_Put)
                    \<lparr>args_ts := ts,
                     args_lookup_result := Lookup True (hash_table hl) (InternalKey hl k) HashElem,
                     args_space := g\<rparr>" and
    hl1: "hl1 = hl\<lparr>grants := gs,
                    calls := calls hl @ [Call_Lookup True (InternalKey hl k) HashElem,
                                         Call_Allocate (RecordSize (InternalKey hl k) v)]\<rparr>"
    by blast
  have lr': "lr = Lookup True (hash_table hl) (InternalKey hl k) HashElem"
    using lr args by simp
  have sl: "entry_ptr lr = Some (InternalKey hl k, HashElem)"
    using Lookup_entry_ptr[OF s] lr' by simp
  have put: "Put bld rnd hl k v ts = Write bld rnd hl1 args"
    using pw by (simp add: Put_def Let_def)
  have b: "args_hlist args = self hl1" "args_op args = WriteOp_Put"
    "args_lookup_result args = lr" "args_ts args = ts" "args_key args = k" "args_value args = v"
    "args_space args = g" "pmem hl1 = pmem hl" "dl_header hl1 = dl_header hl"
    "InternalKey hl1 k = InternalKey hl k" "update_races hl1 = update_races hl"
    using args hl1 lr' by (simp_all add: InitWriteArgs_def InternalKey_def)
  show ?thesis
  proof (cases "lookup_s lr = Ok")
    case True
    with found obtain ex r where e: "index_ptr (entry lr) = Some ex" "pmem hl ex = Some r"
       "linked (pmem hl) ex" "kvdk_assert_on bld \<longrightarrow> timestamp r < ts" by blast
    have "\<exists>hl'. Write bld rnd hl1 args =
           Some (Return (WriteResult_default\<lparr>write_record := Some (space_offset (args_space args)),
                    hash_entry_ptr := Some (InternalKey hl k, HashElem),
                    existing_record := Some ex\<rparr>, hl')) \<and>
           calls hl' = calls hl1 @ replicate (update_races hl1) (Call_Update wa ex Fail) @
             [Call_Update wa ex Ok,
              Call_Insert (Some (InternalKey hl k, HashElem)) HashElem Normal
                (Some (space_offset (args_space args))) PointerType_DLRecord] \<and>
           update_races hl' = 0 \<and>
           (\<exists>r'. pmem hl' (space_offset (args_space args)) = Some r' \<and> old_version r' = Some ex)"
      by (rule Write_put_existing[where r = r]) (use b True e sl wa in simp_all)
    with True e put sl n b(11) show ?thesis by (auto simp: WriteResult_default_def)
  next
    case False
    with s lr' have nf: "lookup_s lr = NotFound" by simp
    with new have h: "pmem hl (dl_header hl) \<noteq> None" by simp
    have "\<exists>hl'. Write bld rnd hl1 args =
           Some (Return (WriteResult_default\<lparr>write_record := Some (space_offset (args_space args)),
                    hash_entry_ptr := Some (InternalKey hl k, HashElem)\<rparr>, hl')) \<and>
           list_size hl' = list_size hl1 + 1 \<and>
           calls hl' = calls hl1 @ [if rnd mod 2 = 0 then Call_PushBack wa else Call_PushFront wa,
              Call_Insert (Some (InternalKey hl k, HashElem)) HashElem Normal
                (Some (space_offset (args_space args))) PointerType_DLRecord]"
      by (rule Write_put_new) (use b nf h sl wa in simp_all)
    then obtain hl' where w: "Write bld rnd hl1 args =
           Some (Return (WriteResult_default\<lparr>write_record := Some (space_offset (args_space args)),
                    hash_entry_ptr := Some (InternalKey hl k, HashElem)\<rparr>, hl'))"
       and c: "calls hl' = calls hl1 @ [if rnd mod 2 = 0 then Call_PushBack wa else Call_PushFront wa,
              Call_Insert (entry_ptr lr) HashElem Normal (Some n) PointerType_DLRecord]"
      unfolding sl n by blast
    have e: "existing_record (WriteResult_default\<lparr>write_record := Some (space_offset (args_space args)),
                    hash_entry_ptr := Some (InternalKey hl k, HashElem)\<rparr>) = None"
            "wr_s (WriteResult_default\<lparr>write_record := Some (space_offset (args_space args)),
                    hash_entry_ptr := Some (InternalKey hl k, HashElem)\<rparr>) = Ok"
      by (simp_all add: WriteResult_default_def)
    from nf put w c e show ?thesis by force
  qed
qed

lemma ex_PrepareWrite_put:
  "PrepareWrite ex_build ex_hl (InitWriteArgs ex_hl k v WriteOp_Put) ts =
     Return (Ok,
       (InitWriteArgs ex_hl k v WriteOp_Put)
          \<lparr>args_ts := ts,
           args_lookup_result := Lookup True ex_table (EncodeID 1 @ k) HashElem,
           args_space := \<lparr>space_offset = 256, space_size = 128\<rparr>\<rparr>,
       ex_hl\<lparr>grants := [\<lparr>space_offset = 384, space_size = 128\<rparr>],
             calls := [Call_Lookup True (EncodeID 1 @ k) HashElem,
                       Call_Allocate (RecordSize (EncodeID 1 @ k) v)]\<rparr>)"
  by (auto simp: PrepareWrite_def InitWriteArgs_def hash_lookup_def Let_def Allocate_def
        ex_build_def ex_hl_def InternalKey_def Lookup_def ex_table_def split: Status.splits)

lemma ex_lookup_a:
  "Lookup m ex_table (EncodeID 1 @ ''a'') HashElem =
     \<lparr>lookup_s = Ok, entry_ptr = Some (EncodeID 1 @ ''a'', HashElem),
      entry = \<lparr>entry_type = HashElem, entry_status = Normal,
            index_type = PointerType_DLRecord, index_ptr = Some 128\<rparr>\<rparr>"
  by (simp add: Lookup_def ex_table_def)

lemma ex_lookup_b:
  "Lookup m ex_table (EncodeID 1 @ ''b'') HashElem =
     \<lparr>lookup_s = Ok, entry_ptr = Some (EncodeID 1 @ ''b'', HashElem),
      entry = \<lparr>entry_type = HashElem, entry_status = Outdated,
            index_type = PointerType_DLRecord, index_ptr = Some 192\<rparr>\<rparr>"
  by (simp add: Lookup_def ex_table_def)

lemma ex_lookup_c:
  "Lookup True ex_table (EncodeID 1 @ ''c'') HashElem =
     \<lparr>lookup_s = NotFound, entry_ptr = Some (EncodeID 1 @ ''c'', HashElem),
      entry = HashEntry_empty\<rparr>"
  by (simp add: Lookup_def ex_table_def)

lemma ex_linked: "linked ex_pmem 64" "linked ex_pmem 128" "linked ex_pmem 192"
  by (simp_all add: linked_def ex_pmem_def ex_b_def ex_a_def ex_header_def ConstructDLRecord_def)

lemma ex_pmem_at: "ex_pmem 64 = Some ex_header" "ex_pmem 128 = Some ex_a" "ex_pmem 192 = Some ex_b"
   "ex_pmem 256 = None" "ex_pmem 384 = None"
  by (simp_all add: ex_pmem_def)

lemma ex_RecordSize: "RecordSize (EncodeID 1 @ [c]) [d] = 128" "RecordSize (EncodeID 1 @ [c]) [] = 128"
  by (simp_all add: RecordSize_def EncodeID_def)

lemma ex_fields: "pmem ex_hl = ex_pmem" "hash_table ex_hl = ex_table" "dl_header ex_hl = 64"
  "InternalKey ex_hl k = EncodeID 1 @ k" "calls ex_hl = []" "self ex_hl = 7"
  "list_size ex_hl = 1"
  by (simp_all add: ex_hl_def InternalKey_def)

lemma word64_step: "(x :: 64 word) + 1 \<noteq> x" "(x :: 64 word) - 1 \<noteq> x" "(x :: 64 word) + 1 \<noteq> x - 1"
proof -
  show "x + 1 \<noteq> x" by simp
  show "x - 1 \<noteq> x" by simp
  show "x + 1 \<noteq> x - 1"
  proof
    assume "x + 1 = x - 1"
    then have "(x + 1) - (x - 1) = 0" by simp
    then have "(2 :: 64 word) = 0" by simp
    then show False by simp
  qed
qed

lemma hash_insert_frame:
  "hash_insert hl lr t st p pt = Return hl' \<Longrightarrow>
   pmem hl' = pmem hl \<and> list_size hl' = list_size hl"
  by (auto simp: hash_insert_def split: option.splits)

lemma putPrepared_elim:
  assumes pp: "putPrepared bld rnd hl lr k v ts sp = Some (Return (ret, h1))"
  shows "list_size h1 = list_size hl \<and>
         (if lookup_s lr = Ok
          then (\<exists>ex h0 wa. index_ptr (entry lr) = Some ex \<and> existing_record ret = Some ex \<and>
                  space_offset (wa_space wa) = space_offset sp \<and>
                  DLList_Update (raced hl wa ex) wa ex = Return (Ok, h0) \<and> pmem h1 = pmem h0)
          else existing_record ret = None)"
proof (cases "lookup_s lr = Ok")
  case True
  let ?wa = "\<lparr>wa_key = InternalKey hl k, wa_value = v, wa_type = HashElem, wa_status = Normal,
                  wa_ts = ts, wa_space = sp\<rparr>"
  from pp True obtain ex st h0 where ex: "index_ptr (entry lr) = Some ex"
    and ur: "update_retry bld hl ?wa ex = Some (Return (st, h0))"
    and hi: "hash_insert h0 lr HashElem Normal (Some (space_offset sp)) PointerType_DLRecord
               = Return h1"
    and ret: "existing_record ret = Some ex"
    by (auto simp: putPrepared_def Let_def WriteResult_default_def
          split: if_splits option.splits outcome.splits prod.splits)
  from update_retry_Return[OF ur]
  have u: "DLList_Update (raced hl ?wa ex) ?wa ex = Return (Ok, h0)" by simp
  from DLList_Update_frame[OF u] hash_insert_frame[OF hi]
  have "list_size h1 = list_size hl" "pmem h1 = pmem h0" by simp_all
  moreover have "space_offset (wa_space ?wa) = space_offset sp" by simp
  ultimately show ?thesis using True ex ret u by (auto intro!: exI[of _ h0] exI[of _ ?wa])
next
  case False
  let ?wa = "\<lparr>wa_key = InternalKey hl k, wa_value = v, wa_type = HashElem, wa_status = Normal,
                  wa_ts = ts, wa_space = sp\<rparr>"
  from pp False obtain st h0 where
    p: "(if rnd mod 2 = 0 then DLList_PushBack hl ?wa else DLList_PushFront hl ?wa) = Return (st, h0)"
    and hi: "hash_insert h0 lr HashElem Normal (Some (space_offset sp)) PointerType_DLRecord
               = Return h1"
    and ret: "existing_record ret = None"
    by (auto simp: putPrepared_def Let_def WriteResult_default_def
          split: if_splits option.splits outcome.splits prod.splits)
  from DLList_Push_frame[OF p] hash_insert_frame[OF hi] False ret show ?thesis by simp
qed

lemma Write_put_elim:
  assumes "Write bld rnd hl args = Some (Return (ret, hl'))" "args_hlist args = self hl"
          "args_op args = WriteOp_Put"
  shows "\<exists>h1. putPrepared bld rnd hl (args_lookup_result args) (args_key args) (args_value args)
             (args_ts args) (args_space args) = Some (Return (ret, h1)) \<and>
          (case existing_record ret of
             None \<Rightarrow> hl' = h1\<lparr>list_size := list_size h1 + 1\<rparr>
           | Some e \<Rightarrow> (\<exists>r. pmem h1 e = Some r \<and>
               hl' = (if record_status r = Outdated then h1\<lparr>list_size := list_size h1 + 1\<rparr>
                      else h1)))"
  using assms
  by (auto simp: Write_def UpdateSize_def split: option.splits outcome.splits if_splits)

lemma Write_delete_elim:
  assumes "Write bld rnd hl args = Some (Return (ret, hl'))" "args_hlist args = self hl"
          "args_op args = WriteOp_Delete"
  shows "\<exists>h1. deletePrepared bld hl (args_lookup_result args) (args_key args)
             (args_ts args) (args_space args) = Some (Return (ret, h1)) \<and>
          (case existing_record ret of
             None \<Rightarrow> hl' = h1
           | Some e \<Rightarrow> (\<exists>r. pmem h1 e = Some r \<and>
               hl' = (if record_status r = Normal then h1\<lparr>list_size := list_size h1 - 1\<rparr>
                      else h1)))"
  using assms
  by (auto simp: Write_def UpdateSize_def split: option.splits outcome.splits if_splits)

lemma deletePrepared_elim:
  assumes dp: "deletePrepared bld hl lr k ts sp = Some (Return (ret, h1))"
  shows "list_size h1 = list_size hl \<and>
         (\<exists>ex h0 wa. index_ptr (entry lr) = Some ex \<and> existing_record ret = Some ex \<and>
                  space_offset (wa_space wa) = space_offset sp \<and>
                  DLList_Update (raced hl wa ex) wa ex = Return (Ok, h0) \<and> pmem h1 = pmem h0)"
proof -
  let ?wa = "\<lparr>wa_key = InternalKey hl k, wa_value = [], wa_type = HashElem,
              wa_status = Outdated, wa_ts = ts, wa_space = sp\<rparr>"
  from dp obtain ex st h0 where ex: "index_ptr (entry lr) = Some ex"
    and ur: "update_retry bld hl ?wa ex = Some (Return (st, h0))"
    and hi: "hash_insert h0 lr HashElem Outdated (Some (space_offset sp)) PointerType_DLRecord
               = Return h1"
    and ret: "existing_record ret = Some ex"
    by (auto simp: deletePrepared_def Let_def WriteResult_default_def
          split: if_splits option.splits outcome.splits prod.splits)
  from update_retry_Return[OF ur]
  have u: "DLList_Update (raced hl ?wa ex) ?wa ex = Return (Ok, h0)" by simp
  from DLList_Update_frame[OF u] hash_insert_frame[OF hi]
  have "list_size h1 = list_size hl" "pmem h1 = pmem h0" by simp_all
  moreover have "space_offset (wa_space ?wa) = space_offset sp" by simp
  ultimately show ?thesis using ex ret u by (auto intro!: exI[of _ h0] exI[of _ ?wa])
qed

lemma Write_size:
  assumes w: "Write bld rnd hl args = Some (Return (ret, hl'))"
      and bound: "args_hlist args = self hl"
      and fresh: "pmem hl (space_offset (args_space args)) = None"
  shows "(list_size hl' = list_size hl + 1) =
           (args_op args = WriteOp_Put \<and>
            (existing_record ret = None \<or>
             (\<exists>e r. existing_record ret = Some e \<and> pmem hl e = Some r \<and>
                    record_status r = Outdated)))"
    and "(list_size hl' = list_size hl - 1) =
           (args_op args = WriteOp_Delete \<and>
            (\<exists>e r. existing_record ret = Some e \<and> pmem hl e = Some r \<and>
                   record_status r = Normal))"
    and "list_size hl' = list_size hl + 1 \<or> list_size hl' = list_size hl - 1 \<or>
         list_size hl' = list_size hl"
proof -
  let ?n = "space_offset (args_space args)"
  have st: "\<exists>r0. pmem hl e = Some r0 \<and> record_status r0 = record_status r1"
    if u: "DLList_Update (raced hl wa e) wa e = Return (Ok, h0)"
       and n: "space_offset (wa_space wa) = ?n"
       and r1: "pmem h0 e = Some r1" for wa e h0 r1
  proof -
    from u obtain r0 where r0: "pmem hl e = Some r0"
      by (auto simp: DLList_Update_def Let_def split: option.splits)
    with fresh have "e \<noteq> ?n" by auto
    moreover from DLList_Update_pmem[OF u] n
    have "\<forall>a r0. pmem hl a = Some r0 \<longrightarrow> a \<noteq> ?n \<longrightarrow>
               (\<exists>r1. pmem h0 a = Some r1 \<and> record_status r1 = record_status r0)" by simp
    ultimately obtain r1' where "pmem h0 e = Some r1'" "record_status r1' = record_status r0"
      using r0 by blast
    with r1 r0 show ?thesis by simp
  qed
  have main: "(args_op args = WriteOp_Put \<and>
                 ((existing_record ret = None \<or>
                   (\<exists>e r. existing_record ret = Some e \<and> pmem hl e = Some r \<and>
                      record_status r = Outdated)) \<and> list_size hl' = list_size hl + 1 \<or>
                  (\<exists>e r. existing_record ret = Some e \<and> pmem hl e = Some r \<and>
                      record_status r = Normal) \<and> list_size hl' = list_size hl)) \<or>
              (args_op args = WriteOp_Delete \<and>
                 ((\<exists>e r. existing_record ret = Some e \<and> pmem hl e = Some r \<and>
                      record_status r = Normal) \<and> list_size hl' = list_size hl - 1 \<or>
                  (existing_record ret = None \<or>
                   (\<exists>e r. existing_record ret = Some e \<and> pmem hl e = Some r \<and>
                      record_status r = Outdated)) \<and> list_size hl' = list_size hl))"
  proof (cases "args_op args")
    case WriteOp_Put
    from Write_put_elim[OF w bound WriteOp_Put] obtain h1 where
      pp: "putPrepared bld rnd hl (args_lookup_result args) (args_key args) (args_value args)
             (args_ts args) (args_space args) = Some (Return (ret, h1))"
      and tail: "(case existing_record ret of
             None \<Rightarrow> hl' = h1\<lparr>list_size := list_size h1 + 1\<rparr>
           | Some e \<Rightarrow> (\<exists>r. pmem h1 e = Some r \<and>
               hl' = (if record_status r = Outdated then h1\<lparr>list_size := list_size h1 + 1\<rparr>
                      else h1)))"
      by blast
    note pe = putPrepared_elim[OF pp]
    show ?thesis
    proof (cases "existing_record ret")
      case None
      with tail pe WriteOp_Put show ?thesis by auto
    next
      case (Some e)
      with pe obtain h0 wa where u: "DLList_Update (raced hl wa e) wa e = Return (Ok, h0)"
        and n: "space_offset (wa_space wa) = ?n" and p: "pmem h1 = pmem h0"
        and sz: "list_size h1 = list_size hl"
        by (auto split: if_splits)
      from tail Some obtain r1 where r1: "pmem h1 e = Some r1"
        and h': "hl' = (if record_status r1 = Outdated then h1\<lparr>list_size := list_size h1 + 1\<rparr>
                      else h1)"
        by auto
      with st[OF u n] p obtain r0 where r0: "pmem hl e = Some r0"
        "record_status r0 = record_status r1" by auto
      show ?thesis
        using h' Some r0 sz WriteOp_Put
        by (cases "record_status r1") auto
    qed
  next
    case WriteOp_Delete
    from Write_delete_elim[OF w bound WriteOp_Delete] obtain h1 where
      dp: "deletePrepared bld hl (args_lookup_result args) (args_key args)
             (args_ts args) (args_space args) = Some (Return (ret, h1))"
      and tail: "(case existing_record ret of
             None \<Rightarrow> hl' = h1
           | Some e \<Rightarrow> (\<exists>r. pmem h1 e = Some r \<and>
               hl' = (if record_status r = Normal then h1\<lparr>list_size := list_size h1 - 1\<rparr>
                      else h1)))"
      by blast
    from deletePrepared_elim[OF dp] obtain e h0 wa where
      e: "existing_record ret = Some e"
      and u: "DLList_Update (raced hl wa e) wa e = Return (Ok, h0)"
      and n: "space_offset (wa_space wa) = ?n" and p: "pmem h1 = pmem h0"
      and sz: "list_size h1 = list_size hl"
      by auto
    from tail e obtain r1 where r1: "pmem h1 e = Some r1"
      and h': "hl' = (if record_status r1 = Normal then h1\<lparr>list_size := list_size h1 - 1\<rparr>
                      else h1)"
      by auto
    with st[OF u n] p obtain r0 where r0: "pmem hl e = Some r0"
      "record_status r0 = record_status r1" by auto
    show ?thesis
      using h' e r0 sz WriteOp_Delete
      by (cases "record_status r1") auto
  qed
  show "(list_size hl' = list_size hl + 1) =
           (args_op args = WriteOp_Put \<and>
            (existing_record ret = None \<or>
             (\<exists>e r. existing_record ret = Some e \<and> pmem hl e = Some r \<and>
                    record_status r = Outdated)))"
    using main word64_step[of "list_size hl"] by (cases "args_op args") auto
  show "(list_size hl' = list_size hl - 1) =
           (args_op args = WriteOp_Delete \<and>
            (\<exists>e r. existing_record ret = Some e \<and> pmem hl e = Some r \<and>
                   record_status r = Normal))"
    using main word64_step[of "list_size hl"] by (cases "args_op args") auto
  show "list_size hl' = list_size hl + 1 \<or> list_size hl' = list_size hl - 1 \<or>
         list_size hl' = list_size hl"
    using main by auto
qed

lemma set_next_fields:
  "h x = Some r \<Longrightarrow> \<exists>r'. set_next h a v x = Some r' \<and> record_status r' = record_status r \<and>
     old_version r' = old_version r \<and> Key r' = Key r \<and> Value r' = Value r \<and>
     timestamp r' = timestamp r \<and> record_type r' = record_type r \<and>
     expire_time r' = expire_time r"
  by (auto simp: set_next_def split: option.splits)

lemma set_prev_fields:
  "h x = Some r \<Longrightarrow> \<exists>r'. set_prev h a v x = Some r' \<and> record_status r' = record_status r \<and>
     old_version r' = old_version r \<and> Key r' = Key r \<and> Value r' = Value r \<and>
     timestamp r' = timestamp r \<and> record_type r' = record_type r \<and>
     expire_time r' = expire_time r"
  by (auto simp: set_prev_def split: option.splits)






text \<open>A delete of a live, linked record of the index.\<close>

lemma Write_delete_existing:
  assumes bound: "args_hlist args = self hl" and opr: "args_op args = WriteOp_Delete"
      and a1: "kvdk_assert_on bld \<longrightarrow>
                 lookup_s (args_lookup_result args) = Ok \<and>
                 entry_type (entry (args_lookup_result args)) = HashElem \<and>
                 entry_status (entry (args_lookup_result args)) = Normal"
      and ex: "index_ptr (entry (args_lookup_result args)) = Some ex"
      and sl: "entry_ptr (args_lookup_result args) = Some sl"
      and l: "linked (pmem hl) ex" and r: "pmem hl ex = Some r"
      and a: "kvdk_assert_on bld \<longrightarrow> timestamp r < args_ts args"
      and sz: "c_assert_on bld \<longrightarrow>
                 RecordSize (InternalKey hl (args_key args)) [] \<le> space_size (args_space args)"
      and fresh: "pmem hl (space_offset (args_space args)) = None"
      and pos: "kvdk_assert_on bld \<and> record_status r = Normal \<longrightarrow> 1 \<le> list_size hl"
  shows "\<exists>hl'. Write bld rnd hl args =
           Some (Return (WriteResult_default\<lparr>wr_s := Ok, existing_record := Some ex,
                    write_record := Some (space_offset (args_space args))\<rparr>, hl')) \<and>
           list_size hl' = (if record_status r = Normal then list_size hl - 1 else list_size hl)"
proof -
  define wa where "wa = \<lparr>wa_key = InternalKey hl (args_key args), wa_value = [],
      wa_type = HashElem, wa_status = Outdated, wa_ts = args_ts args, wa_space = args_space args\<rparr>"
  obtain h1 where u: "DLList_Update (raced hl wa ex) wa ex = Return (Ok, h1)"
    and ur: "update_retry bld hl wa ex = Some (Return (Ok, h1))"
    using update_retry_returns[OF l, of wa bld] by blast
  note fr = DLList_Update_frame[OF u]
  have ne: "ex \<noteq> space_offset (wa_space wa)" using r fresh by (auto simp: wa_def)
  from DLList_Update_pmem[OF u] r ne obtain r1 where r1: "pmem h1 ex = Some r1"
    "record_status r1 = record_status r" by auto
  define h2 where "h2 = h1\<lparr>hash_table := (hash_table h1)\<lparr>slots := (slots (hash_table h1))
                       (sl \<mapsto> \<lparr>entry_type = HashElem, entry_status = Outdated,
                               index_type = PointerType_DLRecord,
                               index_ptr = Some (space_offset (args_space args))\<rparr>)\<rparr>,
                     calls := calls h1 @ [Call_Insert (Some sl) HashElem Outdated
                        (Some (space_offset (args_space args))) PointerType_DLRecord]\<rparr>"
  have hi: "hash_insert h1 (args_lookup_result args) HashElem Outdated
              (Some (space_offset (args_space args))) PointerType_DLRecord = Return h2"
    using sl by (simp add: hash_insert_def h2_def)
  have dp: "deletePrepared bld hl (args_lookup_result args) (args_key args) (args_ts args)
              (args_space args) =
            Some (Return (WriteResult_default\<lparr>wr_s := Ok, existing_record := Some ex,
                    write_record := Some (space_offset (args_space args))\<rparr>, h2))"
    using a1 ex r a sz ur hi
    by (simp add: deletePrepared_def Let_def wa_def[symmetric])
  have p2: "pmem h2 ex = Some r1" "list_size h2 = list_size hl"
    using r1 fr by (simp_all add: h2_def)
  show ?thesis
  proof (cases "record_status r = Normal")
    case True
    have us: "UpdateSize bld h2 (- 1) = Return (h2\<lparr>list_size := list_size h2 - 1\<rparr>)"
      using pos p2 True by (simp add: UpdateSize_def)
    show ?thesis
      using bound opr dp p2 r1 True us
      by (simp add: Write_def WriteResult_default_def)
  next
    case False
    show ?thesis
      using bound opr dp p2 r1 False
      by (simp add: Write_def WriteResult_default_def)
  qed
qed

lemma Delete_existing:
  assumes lr: "Lookup False (hash_table hl) (InternalKey hl k) HashElem = lr"
      and ok: "lookup_s lr = Ok" and et: "entry_type (entry lr) = HashElem"
      and es: "entry_status (entry lr) = Normal"
      and ex: "index_ptr (entry lr) = Some ex"
      and l: "linked (pmem hl) ex" and r: "pmem hl ex = Some r"
      and rs: "record_status r = Normal" and a: "timestamp r < ts"
      and g: "grants hl = g # gs" and nz: "space_size g \<noteq> 0"
      and sz: "RecordSize (InternalKey hl k) [] \<le> space_size g"
      and fresh: "pmem hl (space_offset g) = None"
      and pos: "1 \<le> list_size hl"
  shows "\<exists>hl'. Delete bld rnd hl k ts =
           Some (Return (WriteResult_default\<lparr>wr_s := Ok, existing_record := Some ex,
                    write_record := Some (space_offset g)\<rparr>, hl')) \<and>
           list_size hl' = list_size hl - 1"
proof -
  define hl1 where "hl1 = hl\<lparr>grants := gs,
       calls := calls hl @ [Call_Lookup False (InternalKey hl k) HashElem,
                            Call_Allocate (RecordSize (InternalKey hl k) [])]\<rparr>"
  define args where "args = (InitWriteArgs hl k [] WriteOp_Delete)
               \<lparr>args_ts := ts, args_lookup_result := lr, args_space := g\<rparr>"
  have pw: "PrepareWrite bld hl (InitWriteArgs hl k [] WriteOp_Delete) ts = Return (Ok, args, hl1)"
    using lr ok es g nz
    by (simp add: PrepareWrite_def InitWriteArgs_def hash_lookup_def Let_def Allocate_def
          args_def hl1_def)
  have sl: "entry_ptr lr = Some (InternalKey hl k, HashElem)"
    using lr ok by (auto simp: Lookup_def split: option.splits)
  have pos': "0 < space_size g" using nz by (simp add: word_greater_zero_iff)
  have "\<exists>hl'. Write bld rnd hl1 args =
           Some (Return (WriteResult_default\<lparr>wr_s := Ok, existing_record := Some ex,
                    write_record := Some (space_offset (args_space args))\<rparr>, hl')) \<and>
           list_size hl' = (if record_status r = Normal then list_size hl1 - 1 else list_size hl1)"
    by (rule Write_delete_existing[where r = r and sl = "(InternalKey hl k, HashElem)"])
       (use ok et es ex sl l r rs a sz fresh pos in
         \<open>simp_all add: args_def hl1_def InitWriteArgs_def InternalKey_def\<close>)
  then show ?thesis
    using pw pos' rs by (simp add: Delete_def Let_def args_def hl1_def)
qed


lemma Get_not_found:
  assumes "lr = Lookup False (hash_table hl) (InternalKey hl k) HashElem"
      and "lookup_s lr \<noteq> Ok \<or> entry_status (entry lr) = Outdated"
  shows "Get bld hl h_check h_read k buf = Return (NotFound, buf)"
  using assms by (auto simp: Get_def Let_def)

lemma Get_found:
  assumes "lr = Lookup False (hash_table hl) (InternalKey hl k) HashElem"
      and "lookup_s lr = Ok" "entry_status (entry lr) = Normal"
      and "index_ptr (entry lr) = Some p" "h_check p = Some r"
      and "kvdk_assert_on bld \<longrightarrow> record_type r = HashElem"
  shows "record_status r = Outdated \<longrightarrow> Get bld hl h_check h_read k buf = Return (NotFound, buf)"
    and "record_status r = Normal \<longrightarrow> h_read p = Some r' \<longrightarrow>
           Get bld hl h_check h_read k buf = Return (Ok, Value r')"
  using assms by (auto simp: Get_def Let_def)

lemma FetchID_other:
  assumes "record_type r \<noteq> HashElem" "record_type r \<noteq> HashHeader"
  shows "FetchID bld (Some r) =
           (if kvdk_assert_on bld then Crash [''Wrong record type %u in HashListID'']
            else Return ([''Wrong record type %u in HashListID''], 0))"
  using assms by (cases "record_type r") (auto simp: FetchID_def)

text \<open>The existing record of a finished write is the one the prepared arguments held.\<close>

lemma Write_existing_of:
  assumes w: "Write bld rnd hl args = Some (Return (ret, hl'))"
      and bound: "args_hlist args = self hl"
  shows "existing_record ret = existing_of args"
proof (cases "args_op args")
  case WriteOp_Put
  from Write_put_elim[OF w bound WriteOp_Put] obtain h1 where
    pp: "putPrepared bld rnd hl (args_lookup_result args) (args_key args) (args_value args)
           (args_ts args) (args_space args) = Some (Return (ret, h1))" by blast
  from putPrepared_elim[OF pp] WriteOp_Put show ?thesis
    by (auto simp: existing_of_def split: if_splits)
next
  case WriteOp_Delete
  from Write_delete_elim[OF w bound WriteOp_Delete] obtain h1 where
    dp: "deletePrepared bld hl (args_lookup_result args) (args_key args)
           (args_ts args) (args_space args) = Some (Return (ret, h1))" by blast
  from deletePrepared_elim[OF dp] WriteOp_Delete show ?thesis
    by (auto simp: existing_of_def)
qed

lemma hash_insert_slot:
  "hash_insert hl lr t st p pt = Return hl' \<Longrightarrow> entry_ptr lr \<noteq> None"
  by (auto simp: hash_insert_def split: option.splits)

lemma putPrepared_ready:
  assumes pp: "putPrepared bld rnd hl lr k v ts sp = Some (Return (ret, h1))"
  shows "entry_ptr lr \<noteq> None \<and>
         (if lookup_s lr = Ok
          then (\<exists>ex r. index_ptr (entry lr) = Some ex \<and> pmem hl ex = Some r \<and>
                  linked (pmem hl) ex \<and> (kvdk_assert_on bld \<longrightarrow> timestamp r < ts))
          else (kvdk_assert_on bld \<longrightarrow> lookup_s lr = NotFound) \<and>
               pmem hl (dl_header hl) \<noteq> None)"
proof (cases "lookup_s lr = Ok")
  case True
  let ?wa = "\<lparr>wa_key = InternalKey hl k, wa_value = v, wa_type = HashElem, wa_status = Normal,
                  wa_ts = ts, wa_space = sp\<rparr>"
  from pp True obtain ex r st h0 where ex: "index_ptr (entry lr) = Some ex"
    and r: "pmem hl ex = Some r" and a: "kvdk_assert_on bld \<longrightarrow> timestamp r < ts"
    and ur: "update_retry bld hl ?wa ex = Some (Return (st, h0))"
    and hi: "hash_insert h0 lr HashElem Normal (Some (space_offset sp)) PointerType_DLRecord
               = Return h1"
    by (auto simp: putPrepared_def Let_def WriteResult_default_def
          split: if_splits option.splits outcome.splits prod.splits)
  from update_retry_linked[OF ur] hash_insert_slot[OF hi] True ex r a show ?thesis by auto
next
  case False
  let ?wa = "\<lparr>wa_key = InternalKey hl k, wa_value = v, wa_type = HashElem, wa_status = Normal,
                  wa_ts = ts, wa_space = sp\<rparr>"
  from pp False obtain st h0 where
    p: "(if rnd mod 2 = 0 then DLList_PushBack hl ?wa else DLList_PushFront hl ?wa) = Return (st, h0)"
    and hi: "hash_insert h0 lr HashElem Normal (Some (space_offset sp)) PointerType_DLRecord
               = Return h1"
    and a: "kvdk_assert_on bld \<longrightarrow> lookup_s lr = NotFound"
    by (auto simp: putPrepared_def Let_def WriteResult_default_def
          split: if_splits option.splits outcome.splits prod.splits)
  from p have "pmem hl (dl_header hl) \<noteq> None"
    by (auto simp: DLList_PushBack_def DLList_PushFront_def Let_def split: if_splits option.splits)
  with hash_insert_slot[OF hi] False a show ?thesis by auto
qed

lemma deletePrepared_ready:
  assumes dp: "deletePrepared bld hl lr k ts sp = Some (Return (ret, h1))"
  shows "entry_ptr lr \<noteq> None \<and>
         (kvdk_assert_on bld \<longrightarrow>
            lookup_s lr = Ok \<and> entry_type (entry lr) = HashElem \<and> entry_status (entry lr) = Normal) \<and>
         (c_assert_on bld \<longrightarrow> RecordSize (InternalKey hl k) [] \<le> space_size sp) \<and>
         (\<exists>ex r. index_ptr (entry lr) = Some ex \<and> pmem hl ex = Some r \<and>
                 linked (pmem hl) ex \<and> (kvdk_assert_on bld \<longrightarrow> timestamp r < ts))"
proof -
  let ?wa = "\<lparr>wa_key = InternalKey hl k, wa_value = [], wa_type = HashElem,
              wa_status = Outdated, wa_ts = ts, wa_space = sp\<rparr>"
  from dp obtain ex r st h0 where ex: "index_ptr (entry lr) = Some ex"
    and r: "pmem hl ex = Some r" and a: "kvdk_assert_on bld \<longrightarrow> timestamp r < ts"
    and ur: "update_retry bld hl ?wa ex = Some (Return (st, h0))"
    and hi: "hash_insert h0 lr HashElem Outdated (Some (space_offset sp)) PointerType_DLRecord
               = Return h1"
    and a1: "kvdk_assert_on bld \<longrightarrow>
            lookup_s lr = Ok \<and> entry_type (entry lr) = HashElem \<and> entry_status (entry lr) = Normal"
    and a2: "c_assert_on bld \<longrightarrow> RecordSize (InternalKey hl k) [] \<le> space_size sp"
    by (auto simp: deletePrepared_def Let_def WriteResult_default_def
          split: if_splits option.splits outcome.splits prod.splits)
  from update_retry_linked[OF ur] hash_insert_slot[OF hi] ex r a a1 a2 show ?thesis by auto
qed

lemma Write_delete_size_ok:
  assumes "Write bld rnd hl args = Some (Return (ret, hl'))" "args_hlist args = self hl"
          "args_op args = WriteOp_Delete"
  shows "\<exists>h1. deletePrepared bld hl (args_lookup_result args) (args_key args)
             (args_ts args) (args_space args) = Some (Return (ret, h1)) \<and>
          (\<forall>e r. existing_record ret = Some e \<and> pmem h1 e = Some r \<and>
                 record_status r = Normal \<and> kvdk_assert_on bld \<longrightarrow> 1 \<le> list_size h1)"
  using assms
  by (auto simp: Write_def UpdateSize_def split: option.splits outcome.splits if_splits)

text \<open>A write that returns was ready.\<close>

lemma Write_returns_ready:
  assumes w: "Write bld rnd hl args = Some (Return (ret, hl'))"
      and bound: "args_hlist args = self hl"
      and fresh: "pmem hl (space_offset (args_space args)) = None"
  shows "write_ready bld hl args"
proof (cases "args_op args")
  case WriteOp_Put
  from Write_put_elim[OF w bound WriteOp_Put] obtain h1 where
    pp: "putPrepared bld rnd hl (args_lookup_result args) (args_key args) (args_value args)
           (args_ts args) (args_space args) = Some (Return (ret, h1))" by blast
  from putPrepared_ready[OF pp] WriteOp_Put show ?thesis
    by (auto simp: write_ready_def existing_of_def Let_def split: if_splits)
next
  case WriteOp_Delete
  from Write_delete_size_ok[OF w bound WriteOp_Delete] obtain h1 where
    dp: "deletePrepared bld hl (args_lookup_result args) (args_key args)
           (args_ts args) (args_space args) = Some (Return (ret, h1))"
    and us: "\<forall>e r. existing_record ret = Some e \<and> pmem h1 e = Some r \<and>
                 record_status r = Normal \<and> kvdk_assert_on bld \<longrightarrow> 1 \<le> list_size h1"
    by blast
  from deletePrepared_ready[OF dp] obtain ex r where
    sl: "entry_ptr (args_lookup_result args) \<noteq> None"
    and a1: "kvdk_assert_on bld \<longrightarrow>
            lookup_s (args_lookup_result args) = Ok \<and>
            entry_type (entry (args_lookup_result args)) = HashElem \<and>
            entry_status (entry (args_lookup_result args)) = Normal"
    and a2: "c_assert_on bld \<longrightarrow>
            RecordSize (InternalKey hl (args_key args)) [] \<le> space_size (args_space args)"
    and ex: "index_ptr (entry (args_lookup_result args)) = Some ex"
    and r: "pmem hl ex = Some r" and l: "linked (pmem hl) ex"
    and a: "kvdk_assert_on bld \<longrightarrow> timestamp r < args_ts args"
    by blast
  from deletePrepared_elim[OF dp] ex obtain h0 wa where
    e: "existing_record ret = Some ex"
    and u: "DLList_Update (raced hl wa ex) wa ex = Return (Ok, h0)"
    and n: "space_offset (wa_space wa) = space_offset (args_space args)"
    and p: "pmem h1 = pmem h0" and sz: "list_size h1 = list_size hl"
    by auto
  have ne: "ex \<noteq> space_offset (wa_space wa)" using r fresh n by auto
  from DLList_Update_pmem[OF u] r ne obtain r1 where
    r1: "pmem h0 ex = Some r1" "record_status r1 = record_status r" by auto
  from us e r1 p sz have pos: "record_status r = Normal \<and> kvdk_assert_on bld \<longrightarrow> 1 \<le> list_size hl"
    by auto
  show ?thesis
    using WriteOp_Delete sl a1 a2 ex r l a pos
    by (auto simp: write_ready_def existing_of_def Let_def)
qed

text \<open>A write that is ready returns.\<close>

lemma Write_ready_returns:
  assumes rdy: "write_ready bld hl args"
      and bound: "args_hlist args = self hl"
      and fresh: "pmem hl (space_offset (args_space args)) = None"
  shows "\<exists>ret hl'. Write bld rnd hl args = Some (Return (ret, hl'))"
proof -
  from rdy obtain sl where sl: "entry_ptr (args_lookup_result args) = Some sl"
    by (auto simp: write_ready_def Let_def)
  show ?thesis
  proof (cases "existing_of args")
    case None
    with rdy have opr: "args_op args = WriteOp_Put"
      and nf: "lookup_s (args_lookup_result args) \<noteq> Ok"
      and nf': "kvdk_assert_on bld \<longrightarrow> lookup_s (args_lookup_result args) = NotFound"
      and h: "pmem hl (dl_header hl) \<noteq> None"
      by (auto simp: write_ready_def Let_def)
    from Write_put_new[OF bound opr nf nf' sl h refl, of rnd] show ?thesis by blast
  next
    case (Some ex)
    with rdy obtain r where r: "pmem hl ex = Some r" and l: "linked (pmem hl) ex"
      and a: "kvdk_assert_on bld \<longrightarrow> timestamp r < args_ts args"
      and d: "args_op args = WriteOp_Delete \<longrightarrow>
                   (kvdk_assert_on bld \<longrightarrow>
                      lookup_s (args_lookup_result args) = Ok \<and>
                      entry_type (entry (args_lookup_result args)) = HashElem \<and>
                      entry_status (entry (args_lookup_result args)) = Normal \<and>
                      (record_status r = Normal \<longrightarrow> 1 \<le> list_size hl)) \<and>
                   (c_assert_on bld \<longrightarrow>
                      RecordSize (InternalKey hl (args_key args)) [] \<le>
                        space_size (args_space args))"
      by (auto simp: write_ready_def Let_def split: option.splits)
    show ?thesis
    proof (cases "args_op args")
      case WriteOp_Put
      with Some have ok: "lookup_s (args_lookup_result args) = Ok"
        and ex: "index_ptr (entry (args_lookup_result args)) = Some ex"
        by (auto simp: existing_of_def split: if_splits)
      from Write_put_existing[OF bound WriteOp_Put ok ex sl l r a refl, of rnd]
      show ?thesis by blast
    next
      case WriteOp_Delete
      with Some have ex: "index_ptr (entry (args_lookup_result args)) = Some ex"
        by (auto simp: existing_of_def split: if_splits)
      have "\<exists>hl'. Write bld rnd hl args =
           Some (Return (WriteResult_default\<lparr>wr_s := Ok, existing_record := Some ex,
                    write_record := Some (space_offset (args_space args))\<rparr>, hl')) \<and>
           list_size hl' = (if record_status r = Normal then list_size hl - 1 else list_size hl)"
        by (rule Write_delete_existing[OF bound WriteOp_Delete _ ex sl l r a _ fresh])
           (use d WriteOp_Delete in auto)
      then show ?thesis by blast
    qed
  qed
qed

text \<open>The change of the size, in terms of the record the prepared arguments held.\<close>

lemma Write_size_of:
  assumes w: "Write bld rnd hl args = Some (Return (ret, hl'))"
      and bound: "args_hlist args = self hl"
      and fresh: "pmem hl (space_offset (args_space args)) = None"
  shows "(list_size hl' = list_size hl + 1) =
           (args_op args = WriteOp_Put \<and>
            (existing_of args = None \<or>
             (\<exists>e r. existing_of args = Some e \<and> pmem hl e = Some r \<and>
                    record_status r = Outdated)))"
    and "(list_size hl' = list_size hl - 1) =
           (args_op args = WriteOp_Delete \<and>
            (\<exists>e r. existing_of args = Some e \<and> pmem hl e = Some r \<and>
                   record_status r = Normal))"
    and "list_size hl' = list_size hl + 1 \<or> list_size hl' = list_size hl - 1 \<or>
         list_size hl' = list_size hl"
  using Write_size[OF w bound fresh] unfolding Write_existing_of[OF w bound] by blast+

section \<open>Properties of the cleaner\<close>

lemma purgeOldDataRecord_other:
  assumes "data_entries eng (pmem_data_record odr) = Some de"
     "meta_type de \<noteq> StringDataRecord" "meta_type de \<noteq> SortedDataRecord"
  shows "purgeOldDataRecord eng odr = Crash []"
  using assms by (cases "meta_type de") (auto simp: purgeOldDataRecord_def Let_def)

lemma purgeOldDeleteRecord_other:
  assumes "data_entries eng (pmem_delete_record odr) = Some de"
     "meta_type de \<noteq> StringDeleteRecord" "meta_type de \<noteq> SortedDeleteRecord"
  shows "purgeOldDeleteRecord P eng odr = Some (Crash [])"
  using assms by (cases "meta_type de") (auto simp: purgeOldDeleteRecord_def Let_def)

subsection \<open>The pass over the old data records\<close>

lemma destroyed_in_empty: "destroyed_in E {} = data_entries E"
  by (auto simp: destroyed_in_def fun_eq_iff option.map_ident)

lemma destroyed_in_insert:
  assumes "destroyed_in E S a = Some de"
  shows "(destroyed_in E S)(a \<mapsto> de\<lparr>destroyed := True\<rparr>) = destroyed_in E (insert a S)"
proof
  fix x
  show "((destroyed_in E S)(a \<mapsto> de\<lparr>destroyed := True\<rparr>)) x = destroyed_in E (insert a S) x"
    using assms by (cases "data_entries E x") (auto simp: destroyed_in_def)
qed

lemma purgeOldDataRecord_step:
  assumes p: "purgeOldDataRecord (E\<lparr>data_entries := destroyed_in E S\<rparr>) r = Return (sp, eng1)"
  shows "sp = entry_space E (pmem_data_record r) \<and>
         eng1 = E\<lparr>data_entries := destroyed_in E (insert (pmem_data_record r) S)\<rparr>"
proof -
  let ?a = "pmem_data_record r"
  from p obtain de where de: "destroyed_in E S ?a = Some de"
    and sp: "sp = \<lparr>space_offset = ?a, space_size = ucast (header_record_size de)\<rparr>"
    and e1: "eng1 = DataEntry_Destroy (E\<lparr>data_entries := destroyed_in E S\<rparr>) ?a de"
    by (auto simp: purgeOldDataRecord_def Let_def split: option.splits RecordType.splits)
  from de obtain de0 where de0: "data_entries E ?a = Some de0"
    and sz: "header_record_size de = header_record_size de0"
    by (cases "data_entries E ?a") (auto simp: destroyed_in_def split: if_splits)
  have "sp = entry_space E ?a" using sp de0 sz by (simp add: entry_space_def)
  moreover have "eng1 = E\<lparr>data_entries := destroyed_in E (insert ?a S)\<rparr>"
    using e1 destroyed_in_insert[OF de] by (simp add: DataEntry_Destroy_def)
  ultimately show ?thesis by simp
qed

lemma clean_data_records_state:
  "clean_data_records oldest rs (E\<lparr>data_entries := destroyed_in E S\<rparr>, sf, ref)
     = Return (eng', sf', ref') \<Longrightarrow>
   eng' = E\<lparr>data_entries := destroyed_in E
             (S \<union> pmem_data_record ` set (filter (\<lambda>r. newer_version_timestamp r \<le> oldest) rs))\<rparr> \<and>
   sf' = sf @ map (\<lambda>r. entry_space E (pmem_data_record r))
                 (filter (\<lambda>r. newer_version_timestamp r \<le> oldest) rs) \<and>
   ref' = ref @ filter (\<lambda>r. \<not> newer_version_timestamp r \<le> oldest) rs"
proof (induction rs arbitrary: S sf ref)
  case Nil
  then show ?case by simp
next
  case (Cons r rs)
  show ?case
  proof (cases "newer_version_timestamp r \<le> oldest")
    case True
    with Cons.prems obtain sp eng1 where
      p: "purgeOldDataRecord (E\<lparr>data_entries := destroyed_in E S\<rparr>) r = Return (sp, eng1)"
      and rest: "clean_data_records oldest rs (eng1, sf @ [sp], ref) = Return (eng', sf', ref')"
      by (auto split: outcome.splits)
    from purgeOldDataRecord_step[OF p] have
      sp: "sp = entry_space E (pmem_data_record r)" and
      e1: "eng1 = E\<lparr>data_entries := destroyed_in E (insert (pmem_data_record r) S)\<rparr>"
      by simp_all
    from Cons.IH[OF rest[unfolded e1]] sp True show ?thesis by simp
  next
    case False
    with Cons.prems have rest:
      "clean_data_records oldest rs (E\<lparr>data_entries := destroyed_in E S\<rparr>, sf, ref @ [r])
         = Return (eng', sf', ref')"
      by simp
    from Cons.IH[OF rest] False show ?thesis by simp
  qed
qed

lemma clean_global_data_state:
  "clean_global_data oldest qs (E\<lparr>data_entries := destroyed_in E S\<rparr>, sf, ref)
     = Return (eng', sf', ref') \<Longrightarrow>
   eng' = E\<lparr>data_entries := destroyed_in E
             (S \<union> pmem_data_record `
                  set (filter (\<lambda>r. newer_version_timestamp r \<le> oldest) (concat qs)))\<rparr> \<and>
   sf' = sf @ map (\<lambda>r. entry_space E (pmem_data_record r))
                 (filter (\<lambda>r. newer_version_timestamp r \<le> oldest) (concat qs)) \<and>
   ref' = ref @ filter (\<lambda>r. \<not> newer_version_timestamp r \<le> oldest) (concat qs)"
proof (induction qs arbitrary: S sf ref)
  case Nil
  then show ?case by simp
next
  case (Cons q qs)
  from Cons.prems obtain e1 s1 r1 where
    a: "clean_data_records oldest q (E\<lparr>data_entries := destroyed_in E S\<rparr>, sf, ref)
          = Return (e1, s1, r1)" and
    b: "clean_global_data oldest qs (e1, s1, r1) = Return (eng', sf', ref')"
    by (auto split: outcome.splits)
  note A = clean_data_records_state[OF a]
  from A have e1: "e1 = E\<lparr>data_entries := destroyed_in E
             (S \<union> pmem_data_record ` set (filter (\<lambda>r. newer_version_timestamp r \<le> oldest) q))\<rparr>"
    by simp
  from Cons.IH[OF b[unfolded e1]] A show ?case by (simp add: Un_assoc image_Un)
qed

text \<open>The pass returns exactly when the due records point at data records.\<close>

lemma purgeOldDataRecord_returns:
  "(\<exists>sp eng1. purgeOldDataRecord (E\<lparr>data_entries := destroyed_in E S\<rparr>) r = Return (sp, eng1))
     = data_ok E r"
proof (cases "data_entries E (pmem_data_record r)")
  case None
  then show ?thesis
    by (simp add: purgeOldDataRecord_def Let_def destroyed_in_def data_ok_def type_at_def)
next
  case (Some de)
  then show ?thesis
    by (cases "meta_type de")
       (simp_all add: purgeOldDataRecord_def Let_def destroyed_in_def data_ok_def type_at_def)
qed

lemma clean_data_records_returns:
  "(\<exists>eng' sf' ref'. clean_data_records oldest rs (E\<lparr>data_entries := destroyed_in E S\<rparr>, sf, ref)
            = Return (eng', sf', ref')) =
   (\<forall>r\<in>set rs. newer_version_timestamp r \<le> oldest \<longrightarrow> data_ok E r)"
proof (induction rs arbitrary: S sf ref)
  case Nil
  then show ?case by simp
next
  case (Cons r rs)
  show ?case
  proof (cases "newer_version_timestamp r \<le> oldest")
    case due: True
    show ?thesis
    proof (cases "data_ok E r")
      case True
      with purgeOldDataRecord_returns[of E S r] obtain sp eng1 where
        p: "purgeOldDataRecord (E\<lparr>data_entries := destroyed_in E S\<rparr>) r = Return (sp, eng1)"
        by blast
      from purgeOldDataRecord_step[OF p] have
        e1: "eng1 = E\<lparr>data_entries := destroyed_in E (insert (pmem_data_record r) S)\<rparr>" by simp
      from Cons.IH[of "insert (pmem_data_record r) S" "sf @ [sp]" ref] due p e1 True
      show ?thesis by simp
    next
      case False
      with purgeOldDataRecord_returns[of E S r]
      have "\<And>sp eng1. purgeOldDataRecord (E\<lparr>data_entries := destroyed_in E S\<rparr>) r
                \<noteq> Return (sp, eng1)" by blast
      with due False show ?thesis by (auto split: outcome.splits)
    qed
  next
    case False
    from Cons.IH[of S sf "ref @ [r]"] False show ?thesis by simp
  qed
qed

lemma clean_global_data_returns:
  "(\<exists>eng' sf' ref'. clean_global_data oldest qs (E\<lparr>data_entries := destroyed_in E S\<rparr>, sf, ref)
            = Return (eng', sf', ref')) =
   (\<forall>r\<in>set (concat qs). newer_version_timestamp r \<le> oldest \<longrightarrow> data_ok E r)"
proof (induction qs arbitrary: S sf ref)
  case Nil
  then show ?case by simp
next
  case (Cons q qs)
  show ?case
  proof (cases "\<forall>r\<in>set q. newer_version_timestamp r \<le> oldest \<longrightarrow> data_ok E r")
    case True
    with clean_data_records_returns[of oldest q E S sf ref] obtain e1 s1 r1 where
      a: "clean_data_records oldest q (E\<lparr>data_entries := destroyed_in E S\<rparr>, sf, ref)
            = Return (e1, s1, r1)" by blast
    from clean_data_records_state[OF a] have e1: "e1 = E\<lparr>data_entries := destroyed_in E
             (S \<union> pmem_data_record ` set (filter (\<lambda>r. newer_version_timestamp r \<le> oldest) q))\<rparr>"
      by simp
    from Cons.IH[of "S \<union> pmem_data_record `
            set (filter (\<lambda>r. newer_version_timestamp r \<le> oldest) q)" s1 r1] a e1 True
    show ?thesis by auto
  next
    case False
    with clean_data_records_returns[of oldest q E S sf ref]
    have "\<And>e1 s1 r1. clean_data_records oldest q (E\<lparr>data_entries := destroyed_in E S\<rparr>, sf, ref)
            \<noteq> Return (e1, s1, r1)" by blast
    with False show ?thesis by (auto split: outcome.splits)
  qed
qed

subsection \<open>The pass over the old delete records\<close>

lemma purge_log_append:
  "purge_log E n (xs @ ys) =
     purge_log E n xs @
     purge_log E (if \<exists>r\<in>set xs. sorted_indexed E r then 0 else n) ys"
  by (induction xs arbitrary: n) auto

lemma cleared_in_snoc:
  "cleared_in E (done @ [r]) =
     (if indexes_tombstone E r
      then (cleared_in E done)(hash_entry_ref r \<mapsto> CleanerHashEntry_empty)
      else cleared_in E done)"
  by (auto simp: cleared_in_def fun_eq_iff)

lemma after_deletes_Nil: "after_deletes E [] = E"
  by (simp add: after_deletes_def cleared_in_def)

lemma after_deletes_fields [simp]:
  "data_entries (after_deletes E done) = data_entries E"
  "skiplist_nodes (after_deletes E done) = skiplist_nodes E"
  "version_controller (after_deletes E done) = version_controller E"
  "batch_freed (after_deletes E done) = batch_freed E"
  "hash_entries (after_deletes E done) = cleared_in E done"
  "purge_races (after_deletes E done) =
     (if \<exists>r\<in>set done. sorted_indexed E r then 0 else purge_races E)"
  "purge_calls (after_deletes E done) = purge_calls E @ purge_log E (purge_races E) done"
  by (simp_all add: after_deletes_def)

text \<open>A record that is not indexed leaves the engine as it is.\<close>

lemma after_deletes_snoc_same:
  assumes "\<not> indexes_tombstone E r"
  shows "after_deletes E (done @ [r]) = after_deletes E done"
  using assms
  by (simp add: after_deletes_def cleared_in_snoc purge_log_append indexes_tombstone_def)

text \<open>An indexed string delete record has its hash entry cleared.\<close>

lemma after_deletes_snoc_string:
  assumes "string_indexed E r"
  shows "after_deletes E (done @ [r]) =
           HashEntry_Clear (after_deletes E done) (hash_entry_ref r)"
proof -
  from assms have "\<not> sorted_indexed E r"
    by (auto simp: string_indexed_def sorted_indexed_def)
  with assms show ?thesis
    by (simp add: after_deletes_def cleared_in_snoc purge_log_append indexes_tombstone_def
          HashEntry_Clear_def)
qed

text \<open>
  An indexed sorted delete record has \<^verbatim>\<open>Skiplist::Purge\<close> called until it succeeds, and its
  hash entry cleared.
\<close>

lemma after_deletes_snoc_sorted:
  assumes "sorted_indexed E r"
  shows "after_deletes E (done @ [r]) =
           HashEntry_Clear
             ((after_deletes E done)
                \<lparr>purge_races := 0,
                 purge_calls := purge_calls (after_deletes E done) @
                   replicate (purge_races (after_deletes E done))
                     (pmem_delete_record r, purge_node E r, False) @
                   [(pmem_delete_record r, purge_node E r, True)]\<rparr>)
             (hash_entry_ref r)"
  using assms
  by (simp add: after_deletes_def cleared_in_snoc purge_log_append indexes_tombstone_def
        HashEntry_Clear_def)

lemma hash_indexed_pmem_record_cong:
  "skiplist_nodes eng' = skiplist_nodes eng \<Longrightarrow>
   hash_indexed_pmem_record eng' he = hash_indexed_pmem_record eng he"
  by (auto simp: hash_indexed_pmem_record_def split: HashOffsetType.splits option.splits)

lemma hash_indexed_pmem_record_Return:
  "hash_indexed_pmem_record eng he = Return (indexed, node) \<Longrightarrow>
   indexed = indexed_record eng he \<and>
   node = (if offset_type he = HashOffsetType_SkiplistNode then index he else None) \<and>
   (offset_type he = HashOffsetType_DLRecord \<or> offset_type he = HashOffsetType_SkiplistNode)"
  by (auto simp: hash_indexed_pmem_record_def indexed_record_def
           split: HashOffsetType.splits option.splits)

lemma hash_indexed_pmem_record_node:
  assumes "hash_indexed_pmem_record eng he = Return (indexed, node)"
      and "offset_type he = HashOffsetType_SkiplistNode"
  shows "indexed_record eng he \<noteq> None"
proof (cases "index he")
  case None
  with assms show ?thesis by (simp add: hash_indexed_pmem_record_def)
next
  case (Some n)
  have "indexed_record eng he = skiplist_nodes eng n"
    using assms(2) Some by (simp add: indexed_record_def)
  moreover have "skiplist_nodes eng n \<noteq> None"
  proof
    assume "skiplist_nodes eng n = None"
    with assms(2) Some have "hash_indexed_pmem_record eng he = Crash []"
      by (simp add: hash_indexed_pmem_record_def)
    with assms(1) show False by simp
  qed
  ultimately show ?thesis by simp
qed

text \<open>The loop of the sorted branch: after the calls that meet contention, one call succeeds.\<close>

lemma purge_sorted_delete_purges:
  assumes "hash_entries eng (hash_entry_ref r) = Some he"
      and "hash_indexed_pmem_record eng he = Return (Some (pmem_delete_record r), node)"
  shows "purge_sorted_delete Skiplist_Purge eng r =
           Some (space_entry_of
             (HashEntry_Clear
                (eng\<lparr>purge_races := 0,
                     purge_calls := purge_calls eng @
                       replicate (purge_races eng) (pmem_delete_record r, node, False) @
                       [(pmem_delete_record r, node, True)]\<rparr>)
                (hash_entry_ref r))
             (pmem_delete_record r))"
  using assms
proof (induction "purge_races eng" arbitrary: eng)
  case 0
  then have z: "purge_races eng = 0" by simp
  have e: "eng\<lparr>purge_races := 0,
               purge_calls := purge_calls eng @ [(pmem_delete_record r, node, True)]\<rparr> =
           eng\<lparr>purge_calls := purge_calls eng @ [(pmem_delete_record r, node, True)]\<rparr>"
    using z by simp
  show ?case
    using 0(2,3) z
    by (subst purge_sorted_delete.simps) (simp add: Let_def Skiplist_Purge_def e)
next
  case (Suc n)
  let ?e = "eng\<lparr>purge_calls := purge_calls eng @ [(pmem_delete_record r, node, False)],
                purge_races := n\<rparr>"
  have n: "purge_races eng = Suc n" using Suc.hyps(2) by simp
  have sp: "Skiplist_Purge eng (pmem_delete_record r) node = (False, ?e)"
    using n by (simp add: Skiplist_Purge_def Let_def)
  have step: "purge_sorted_delete Skiplist_Purge eng r = purge_sorted_delete Skiplist_Purge ?e r"
    using Suc.prems sp by (subst purge_sorted_delete.simps) (simp add: Let_def)
  have h: "hash_entries ?e (hash_entry_ref r) = Some he" using Suc.prems by simp
  have i: "hash_indexed_pmem_record ?e he = Return (Some (pmem_delete_record r), node)"
    using Suc.prems hash_indexed_pmem_record_cong[of ?e eng he] by simp
  have "purge_sorted_delete Skiplist_Purge ?e r =
           Some (space_entry_of
             (HashEntry_Clear
                (?e\<lparr>purge_races := 0,
                     purge_calls := purge_calls ?e @
                       replicate (purge_races ?e) (pmem_delete_record r, node, False) @
                       [(pmem_delete_record r, node, True)]\<rparr>)
                (hash_entry_ref r))
             (pmem_delete_record r))"
    by (rule Suc.hyps(1)[OF _ h i]) simp
  with step n show ?case by simp
qed

lemma purge_sorted_delete_keeps:
  assumes "hash_entries eng (hash_entry_ref r) = Some he"
      and "hash_indexed_pmem_record eng he = Return (indexed, node)"
      and "indexed \<noteq> Some (pmem_delete_record r)"
  shows "purge_sorted_delete Skiplist_Purge eng r =
           Some (space_entry_of eng (pmem_delete_record r))"
  using assms by (subst purge_sorted_delete.simps) (simp add: Let_def)

lemma purge_sorted_delete_crash:
  "hash_entries eng (hash_entry_ref r) = None \<Longrightarrow>
   purge_sorted_delete Skiplist_Purge eng r = Some (Crash [])"
  "hash_entries eng (hash_entry_ref r) = Some he \<Longrightarrow>
   hash_indexed_pmem_record eng he = Crash msgs \<Longrightarrow>
   purge_sorted_delete Skiplist_Purge eng r = Some (Crash msgs)"
  by (subst purge_sorted_delete.simps, simp add: Let_def)+

lemma HashEntry_Clear_idem:
  "hash_entries eng x = Some CleanerHashEntry_empty \<Longrightarrow> HashEntry_Clear eng x = eng"
  by (simp add: HashEntry_Clear_def fun_upd_idem)

lemma space_entry_of_Return:
  "data_entries X a = Some de \<Longrightarrow> data_entries E a = Some de \<Longrightarrow>
   space_entry_of X a = Return (entry_space E a, X)"
  by (simp add: space_entry_of_def entry_space_def)

lemma indexed_record_cong:
  "skiplist_nodes eng' = skiplist_nodes eng \<Longrightarrow> indexed_record eng' he = indexed_record eng he"
  by (auto simp: indexed_record_def split: option.splits)

text \<open>
  One old delete record, purged after the records \<open>done\<close>: the space is that of its data
  entry, and the engine is as described by \<open>after_deletes\<close>.
\<close>

lemma purge_delete_step:
  assumes p: "purgeOldDeleteRecord Skiplist_Purge (after_deletes E done) r
                = Some (Return (sp, eng1))"
  shows "sp = entry_space E (pmem_delete_record r) \<and> eng1 = after_deletes E (done @ [r])"
proof -
  let ?a = "pmem_delete_record r"
  let ?x = "hash_entry_ref r"
  let ?eng = "after_deletes E done"
  from p obtain de where de: "data_entries E ?a = Some de"
    and t: "meta_type de = StringDeleteRecord \<or> meta_type de = SortedDeleteRecord"
    by (auto simp: purgeOldDeleteRecord_def Let_def split: option.splits RecordType.splits)
  have es: "entry_space E ?a = \<lparr>space_offset = ?a, space_size = ucast (header_record_size de)\<rparr>"
    using de by (simp add: entry_space_def)
  have ty: "type_at E ?a = Some (meta_type de)" using de by (simp add: type_at_def)
  from t show ?thesis
  proof
    assume s: "meta_type de = StringDeleteRecord"
    have ns: "\<not> sorted_indexed E r" using ty s by (simp add: sorted_indexed_def)
    from p de s obtain he where he: "cleared_in E done ?x = Some he"
      and sp: "sp = entry_space E ?a"
      and e1: "eng1 = (if index he = Some ?a then HashEntry_Clear ?eng ?x else ?eng)"
      by (auto simp: purgeOldDeleteRecord_def Let_def es split: option.splits)
    show ?thesis
    proof (cases "\<exists>r'\<in>set done. hash_entry_ref r' = ?x \<and> indexes_tombstone E r'")
      case True
      with he have "he = CleanerHashEntry_empty" by (simp add: cleared_in_def)
      with e1 have e: "eng1 = ?eng" by (simp add: CleanerHashEntry_empty_def)
      have c: "hash_entries ?eng ?x = Some CleanerHashEntry_empty"
        using True by (simp add: cleared_in_def)
      have "after_deletes E (done @ [r]) = ?eng"
      proof (cases "indexes_tombstone E r")
        case True
        with ns have "string_indexed E r" by (simp add: indexes_tombstone_def)
        from after_deletes_snoc_string[OF this, of "done"] HashEntry_Clear_idem[OF c]
        show ?thesis by simp
      next
        case False
        from after_deletes_snoc_same[OF this] show ?thesis .
      qed
      with e sp show ?thesis by simp
    next
      case False
      with he have h0: "hash_entries E ?x = Some he" by (simp add: cleared_in_def)
      show ?thesis
      proof (cases "index he = Some ?a")
        case True
        with h0 ty s have "string_indexed E r" by (simp add: string_indexed_def)
        from after_deletes_snoc_string[OF this, of "done"] e1 True sp show ?thesis by simp
      next
        case False
        with h0 have "\<not> string_indexed E r" by (simp add: string_indexed_def)
        with ns have "\<not> indexes_tombstone E r" by (simp add: indexes_tombstone_def)
        from after_deletes_snoc_same[OF this, of "done"] e1 False sp show ?thesis by simp
      qed
    qed
  next
    assume s: "meta_type de = SortedDeleteRecord"
    have nst: "\<not> string_indexed E r" using ty s by (simp add: string_indexed_def)
    from p de s have ps: "purge_sorted_delete Skiplist_Purge ?eng r = Some (Return (sp, eng1))"
      by (simp add: purgeOldDeleteRecord_def Let_def)
    from ps obtain he where he: "hash_entries ?eng ?x = Some he"
      using purge_sorted_delete_crash(1)[of ?eng r] by (cases "hash_entries ?eng ?x") auto
    from ps he obtain indexed node where
      hi: "hash_indexed_pmem_record ?eng he = Return (indexed, node)"
      using purge_sorted_delete_crash(2)[OF he]
      by (cases "hash_indexed_pmem_record ?eng he") auto
    note R = hash_indexed_pmem_record_Return[OF hi]
    from R have "he \<noteq> CleanerHashEntry_empty" by (auto simp: CleanerHashEntry_empty_def)
    with he have fresh: "\<not> (\<exists>r'\<in>set done. hash_entry_ref r' = ?x \<and> indexes_tombstone E r')"
      and h0: "hash_entries E ?x = Some he"
      by (auto simp: cleared_in_def split: if_splits)
    have ir: "indexed = indexed_record E he"
      using R indexed_record_cong[of ?eng E he] by simp
    have nd: "node = purge_node E r" using R h0 by (simp add: purge_node_def)
    have so: "space_entry_of X ?a = Return (entry_space E ?a, X)" if "data_entries X = data_entries E"
      for X using space_entry_of_Return[of X ?a de E] de that by simp
    show ?thesis
    proof (cases "indexed = Some ?a")
      case True
      with ir h0 ty s have si: "sorted_indexed E r" by (simp add: sorted_indexed_def)
      from purge_sorted_delete_purges[OF he hi[unfolded True]] ps
      have "space_entry_of
             (HashEntry_Clear
                (?eng\<lparr>purge_races := 0,
                     purge_calls := purge_calls ?eng @
                       replicate (purge_races ?eng) (?a, node, False) @ [(?a, node, True)]\<rparr>)
                ?x) ?a = Return (sp, eng1)" by simp
      moreover have "space_entry_of
             (HashEntry_Clear
                (?eng\<lparr>purge_races := 0,
                     purge_calls := purge_calls ?eng @
                       replicate (purge_races ?eng) (?a, node, False) @ [(?a, node, True)]\<rparr>)
                ?x) ?a =
            Return (entry_space E ?a, HashEntry_Clear
                (?eng\<lparr>purge_races := 0,
                     purge_calls := purge_calls ?eng @
                       replicate (purge_races ?eng) (?a, node, False) @ [(?a, node, True)]\<rparr>)
                ?x)"
        by (rule so) (simp add: HashEntry_Clear_def)
      ultimately have "sp = entry_space E ?a" and
        "eng1 = HashEntry_Clear
                (?eng\<lparr>purge_races := 0,
                     purge_calls := purge_calls ?eng @
                       replicate (purge_races ?eng) (?a, node, False) @ [(?a, node, True)]\<rparr>)
                ?x" by simp_all
      with after_deletes_snoc_sorted[OF si, of "done"] nd show ?thesis by simp
    next
      case False
      with ir h0 have "\<not> sorted_indexed E r" by (simp add: sorted_indexed_def)
      with nst have ni: "\<not> indexes_tombstone E r" by (simp add: indexes_tombstone_def)
      from purge_sorted_delete_keeps[OF he hi False] ps so[of ?eng]
      have "sp = entry_space E ?a" "eng1 = ?eng" by simp_all
      with after_deletes_snoc_same[OF ni, of "done"] show ?thesis by simp
    qed
  qed
qed

text \<open>
  The purge returns exactly on a record that can be purged and, for a sorted delete record,
  whose hash entry was not cleared before.
\<close>

lemma purge_delete_returns:
  "(\<exists>sp eng1. purgeOldDeleteRecord Skiplist_Purge (after_deletes E done) r
                 = Some (Return (sp, eng1))) =
   (delete_ok E r \<and>
    (type_at E (pmem_delete_record r) = Some SortedDeleteRecord \<longrightarrow>
       \<not> (\<exists>r'\<in>set done. hash_entry_ref r' = hash_entry_ref r \<and> indexes_tombstone E r')))"
proof
  let ?a = "pmem_delete_record r"
  let ?x = "hash_entry_ref r"
  let ?eng = "after_deletes E done"
  assume "\<exists>sp eng1. purgeOldDeleteRecord Skiplist_Purge ?eng r = Some (Return (sp, eng1))"
  then obtain sp eng1 where
    p: "purgeOldDeleteRecord Skiplist_Purge ?eng r = Some (Return (sp, eng1))" by blast
  from p obtain de where de: "data_entries E ?a = Some de"
    and t: "meta_type de = StringDeleteRecord \<or> meta_type de = SortedDeleteRecord"
    by (auto simp: purgeOldDeleteRecord_def Let_def split: option.splits RecordType.splits)
  have ty: "type_at E ?a = Some (meta_type de)" using de by (simp add: type_at_def)
  from t show "delete_ok E r \<and>
    (type_at E ?a = Some SortedDeleteRecord \<longrightarrow>
       \<not> (\<exists>r'\<in>set done. hash_entry_ref r' = ?x \<and> indexes_tombstone E r'))"
  proof
    assume s: "meta_type de = StringDeleteRecord"
    from p de s obtain he where "cleared_in E done ?x = Some he"
      by (auto simp: purgeOldDeleteRecord_def Let_def split: option.splits)
    then have "hash_entries E ?x \<noteq> None"
      by (auto simp: cleared_in_def indexes_tombstone_def string_indexed_def sorted_indexed_def
               split: if_splits option.splits)
    with ty s show ?thesis by (auto simp: delete_ok_def)
  next
    assume s: "meta_type de = SortedDeleteRecord"
    from p de s have ps: "purge_sorted_delete Skiplist_Purge ?eng r = Some (Return (sp, eng1))"
      by (simp add: purgeOldDeleteRecord_def Let_def)
    from ps obtain he where he: "hash_entries ?eng ?x = Some he"
      using purge_sorted_delete_crash(1)[of ?eng r] by (cases "hash_entries ?eng ?x") auto
    from ps he obtain indexed node where
      hi: "hash_indexed_pmem_record ?eng he = Return (indexed, node)"
      using purge_sorted_delete_crash(2)[OF he]
      by (cases "hash_indexed_pmem_record ?eng he") auto
    note R = hash_indexed_pmem_record_Return[OF hi]
    from R have "he \<noteq> CleanerHashEntry_empty" by (auto simp: CleanerHashEntry_empty_def)
    with he have fresh: "\<not> (\<exists>r'\<in>set done. hash_entry_ref r' = ?x \<and> indexes_tombstone E r')"
      and h0: "hash_entries E ?x = Some he"
      by (auto simp: cleared_in_def split: if_splits)
    have ir: "indexed = indexed_record E he"
      using R indexed_record_cong[of ?eng E he] by simp
    have "offset_type he = HashOffsetType_SkiplistNode \<Longrightarrow> indexed_record E he \<noteq> None"
      using hash_indexed_pmem_record_node[OF hi] indexed_record_cong[of ?eng E he] by simp
    with R h0 ty s have "delete_ok E r" by (auto simp: delete_ok_def)
    with fresh show ?thesis by simp
  qed
next
  let ?a = "pmem_delete_record r"
  let ?x = "hash_entry_ref r"
  let ?eng = "after_deletes E done"
  assume A: "delete_ok E r \<and>
    (type_at E ?a = Some SortedDeleteRecord \<longrightarrow>
       \<not> (\<exists>r'\<in>set done. hash_entry_ref r' = ?x \<and> indexes_tombstone E r'))"
  then obtain he where h0: "hash_entries E ?x = Some he"
    by (auto simp: delete_ok_def split: option.splits)
  from A h0 consider
      (string) de where "data_entries E ?a = Some de" "meta_type de = StringDeleteRecord"
    | (sorted) de where "data_entries E ?a = Some de" "meta_type de = SortedDeleteRecord"
        "offset_type he = HashOffsetType_DLRecord \<or>
         (offset_type he = HashOffsetType_SkiplistNode \<and> indexed_record E he \<noteq> None)"
        "\<not> (\<exists>r'\<in>set done. hash_entry_ref r' = ?x \<and> indexes_tombstone E r')"
    by (auto simp: delete_ok_def type_at_def)
  then show "\<exists>sp eng1. purgeOldDeleteRecord Skiplist_Purge ?eng r = Some (Return (sp, eng1))"
  proof cases
    case string
    have "hash_entries ?eng ?x \<noteq> None" using h0 by (simp add: cleared_in_def)
    with string show ?thesis by (auto simp: purgeOldDeleteRecord_def Let_def)
  next
    case sorted
    from sorted(4) h0 have he: "hash_entries ?eng ?x = Some he" by (auto simp: cleared_in_def)
    from sorted(3) obtain indexed node where
      hi: "hash_indexed_pmem_record ?eng he = Return (indexed, node)"
      by (auto simp: hash_indexed_pmem_record_def indexed_record_def split: option.splits)
    have so: "\<exists>sp. space_entry_of X ?a = Return (sp, X)" if "data_entries X = data_entries E"
      for X using sorted(1) that by (simp add: space_entry_of_def)
    have "\<exists>sp eng1. purge_sorted_delete Skiplist_Purge ?eng r = Some (Return (sp, eng1))"
    proof (cases "indexed = Some ?a")
      case True
      define X where "X = HashEntry_Clear
                (?eng\<lparr>purge_races := 0,
                     purge_calls := purge_calls ?eng @
                       replicate (purge_races ?eng) (?a, node, False) @ [(?a, node, True)]\<rparr>)
                ?x"
      have dx: "data_entries X = data_entries E" by (simp add: X_def HashEntry_Clear_def)
      from so[OF dx] obtain sp where sp: "space_entry_of X ?a = Return (sp, X)" by blast
      have "purge_sorted_delete Skiplist_Purge ?eng r = Some (space_entry_of X ?a)"
        unfolding X_def by (rule purge_sorted_delete_purges[OF he hi[unfolded True]])
      with sp show ?thesis by simp
    next
      case False
      from purge_sorted_delete_keeps[OF he hi False] so[of ?eng] show ?thesis by auto
    qed
    with sorted show ?thesis by (simp add: purgeOldDeleteRecord_def Let_def)
  qed
qed

lemma clean_delete_records_state:
  "clean_delete_records Skiplist_Purge oldest rs (after_deletes E done, sp, ref)
     = Some (Return (eng', sp', ref')) \<Longrightarrow>
   eng' = after_deletes E
            (done @ filter (\<lambda>r. delete_newer_version_timestamp r \<le> oldest) rs) \<and>
   sp' = sp @ map (\<lambda>r. entry_space E (pmem_delete_record r))
                 (filter (\<lambda>r. delete_newer_version_timestamp r \<le> oldest) rs) \<and>
   ref' = ref @ filter (\<lambda>r. \<not> delete_newer_version_timestamp r \<le> oldest) rs"
proof (induction rs arbitrary: "done" sp ref)
  case Nil
  then show ?case by simp
next
  case (Cons r rs)
  show ?case
  proof (cases "delete_newer_version_timestamp r \<le> oldest")
    case True
    with Cons.prems obtain s1 eng1 where
      p: "purgeOldDeleteRecord Skiplist_Purge (after_deletes E done) r = Some (Return (s1, eng1))"
      and rest: "clean_delete_records Skiplist_Purge oldest rs (eng1, sp @ [s1], ref)
                   = Some (Return (eng', sp', ref'))"
      by (auto split: option.splits outcome.splits)
    from purge_delete_step[OF p] have s1: "s1 = entry_space E (pmem_delete_record r)"
      and e1: "eng1 = after_deletes E (done @ [r])" by simp_all
    from Cons.IH[OF rest[unfolded e1]] s1 True show ?thesis by simp
  next
    case False
    with Cons.prems have rest:
      "clean_delete_records Skiplist_Purge oldest rs (after_deletes E done, sp, ref @ [r])
         = Some (Return (eng', sp', ref'))"
      by simp
    from Cons.IH[OF rest] False show ?thesis by simp
  qed
qed

lemma clean_global_delete_state:
  "clean_global_delete Skiplist_Purge oldest qs (after_deletes E done, sp, ref)
     = Some (Return (eng', sp', ref')) \<Longrightarrow>
   eng' = after_deletes E
            (done @ filter (\<lambda>r. delete_newer_version_timestamp r \<le> oldest) (concat qs)) \<and>
   sp' = sp @ map (\<lambda>r. entry_space E (pmem_delete_record r))
                 (filter (\<lambda>r. delete_newer_version_timestamp r \<le> oldest) (concat qs)) \<and>
   ref' = ref @ filter (\<lambda>r. \<not> delete_newer_version_timestamp r \<le> oldest) (concat qs)"
proof (induction qs arbitrary: "done" sp ref)
  case Nil
  then show ?case by simp
next
  case (Cons q qs)
  from Cons.prems obtain e1 s1 r1 where
    a: "clean_delete_records Skiplist_Purge oldest q (after_deletes E done, sp, ref)
          = Some (Return (e1, s1, r1))" and
    b: "clean_global_delete Skiplist_Purge oldest qs (e1, s1, r1) = Some (Return (eng', sp', ref'))"
    by (auto split: option.splits outcome.splits)
  note A = clean_delete_records_state[OF a]
  from A have e1: "e1 = after_deletes E
            (done @ filter (\<lambda>r. delete_newer_version_timestamp r \<le> oldest) q)" by simp
  from Cons.IH[OF b[unfolded e1]] A show ?case by simp
qed

lemma deletes_ok_append:
  "deletes_ok E done (xs @ ys) = (deletes_ok E done xs \<and> deletes_ok E (done @ xs) ys)"
  by (induction xs arbitrary: "done") auto

lemma clean_delete_records_returns:
  "(\<exists>eng' sp' ref'.
      clean_delete_records Skiplist_Purge oldest rs (after_deletes E done, sp, ref)
        = Some (Return (eng', sp', ref'))) =
   deletes_ok E done (filter (\<lambda>r. delete_newer_version_timestamp r \<le> oldest) rs)"
proof (induction rs arbitrary: "done" sp ref)
  case Nil
  then show ?case by simp
next
  case (Cons r rs)
  let ?ok = "delete_ok E r \<and>
    (type_at E (pmem_delete_record r) = Some SortedDeleteRecord \<longrightarrow>
       \<not> (\<exists>r'\<in>set done. hash_entry_ref r' = hash_entry_ref r \<and> indexes_tombstone E r'))"
  show ?case
  proof (cases "delete_newer_version_timestamp r \<le> oldest")
    case due: True
    show ?thesis
    proof (cases ?ok)
      case True
      with purge_delete_returns[of E "done" r] obtain s1 eng1 where
        p: "purgeOldDeleteRecord Skiplist_Purge (after_deletes E done) r = Some (Return (s1, eng1))"
        by blast
      from purge_delete_step[OF p] have e1: "eng1 = after_deletes E (done @ [r])" by simp
      from Cons.IH[of "done @ [r]" "sp @ [s1]" ref] due p e1 True show ?thesis by simp
    next
      case False
      with purge_delete_returns[of E "done" r]
      have "\<And>s1 eng1. purgeOldDeleteRecord Skiplist_Purge (after_deletes E done) r
               \<noteq> Some (Return (s1, eng1))" by blast
      with due False show ?thesis by (auto split: option.splits outcome.splits)
    qed
  next
    case False
    from Cons.IH[of "done" sp "ref @ [r]"] False show ?thesis by simp
  qed
qed

lemma clean_global_delete_returns:
  "(\<exists>eng' sp' ref'.
      clean_global_delete Skiplist_Purge oldest qs (after_deletes E done, sp, ref)
        = Some (Return (eng', sp', ref'))) =
   deletes_ok E done (filter (\<lambda>r. delete_newer_version_timestamp r \<le> oldest) (concat qs))"
proof (induction qs arbitrary: "done" sp ref)
  case Nil
  then show ?case by simp
next
  case (Cons q qs)
  let ?due = "\<lambda>r. delete_newer_version_timestamp r \<le> oldest"
  show ?case
  proof (cases "deletes_ok E done (filter ?due q)")
    case True
    with clean_delete_records_returns[of oldest q E "done" sp ref] obtain e1 s1 r1 where
      a: "clean_delete_records Skiplist_Purge oldest q (after_deletes E done, sp, ref)
            = Some (Return (e1, s1, r1))" by blast
    from clean_delete_records_state[OF a] have e1: "e1 = after_deletes E (done @ filter ?due q)"
      by simp
    from Cons.IH[of "done @ filter ?due q" s1 r1] a e1 True
    show ?thesis by (simp add: deletes_ok_append)
  next
    case False
    with clean_delete_records_returns[of oldest q E "done" sp ref]
    have "\<And>e1 s1 r1. clean_delete_records Skiplist_Purge oldest q (after_deletes E done, sp, ref)
            \<noteq> Some (Return (e1, s1, r1))" by blast
    with False show ?thesis by (auto simp: deletes_ok_append split: option.splits outcome.splits)
  qed
qed

subsection \<open>The whole pass\<close>

lemma free_pending_eq:
  "free_pending oldest eng bs = (eng', rest) \<Longrightarrow>
   rest = dropWhile (\<lambda>b. free_ts b < oldest) bs \<and>
   batch_freed eng' =
     batch_freed eng @ map entries (takeWhile (\<lambda>b. free_ts b < oldest) bs) \<and>
   data_entries eng' = data_entries eng \<and> hash_entries eng' = hash_entries eng \<and>
   purge_calls eng' = purge_calls eng \<and> purge_races eng' = purge_races eng \<and>
   skiplist_nodes eng' = skiplist_nodes eng"
  by (induction bs arbitrary: eng) (auto simp: BatchFree_def split: if_splits)

text \<open>The notions of the statements read the types, the hash entries and the skiplist nodes.\<close>

lemma indexed_cong:
  assumes "type_at E' = type_at E" "hash_entries E' = hash_entries E"
          "skiplist_nodes E' = skiplist_nodes E"
  shows "string_indexed E' = string_indexed E" "sorted_indexed E' = sorted_indexed E"
        "indexes_tombstone E' = indexes_tombstone E" "purge_node E' = purge_node E"
        "cleared_in E' = cleared_in E" "delete_ok E' = delete_ok E"
proof -
  have i: "indexed_record E' = indexed_record E"
    using assms(3) by (auto simp: indexed_record_def fun_eq_iff split: option.splits)
  show a: "string_indexed E' = string_indexed E"
    by (rule ext) (simp add: string_indexed_def assms)
  show b: "sorted_indexed E' = sorted_indexed E"
    by (rule ext) (simp add: sorted_indexed_def assms i split: option.splits)
  show c: "indexes_tombstone E' = indexes_tombstone E"
    by (rule ext) (simp add: indexes_tombstone_def a b)
  show "purge_node E' = purge_node E"
    by (rule ext) (simp add: purge_node_def assms)
  show "cleared_in E' = cleared_in E"
    by (rule ext) (simp add: cleared_in_def assms c cong: if_cong)
  show "delete_ok E' = delete_ok E"
    by (rule ext) (simp add: delete_ok_def assms i split: option.splits)
qed

lemma purge_log_cong:
  assumes "sorted_indexed E' = sorted_indexed E" "purge_node E' = purge_node E"
  shows "purge_log E' n rs = purge_log E n rs"
  using assms by (induction rs arbitrary: n) auto

lemma destroyed_in_frame:
  "type_at (E\<lparr>data_entries := destroyed_in E S\<rparr>) = type_at E"
  "entry_space (E\<lparr>data_entries := destroyed_in E S\<rparr>) a = entry_space E a"
proof -
  show "type_at (E\<lparr>data_entries := destroyed_in E S\<rparr>) = type_at E"
  proof
    fix x show "type_at (E\<lparr>data_entries := destroyed_in E S\<rparr>) x = type_at E x"
      by (cases "data_entries E x") (simp_all add: type_at_def destroyed_in_def)
  qed
  show "entry_space (E\<lparr>data_entries := destroyed_in E S\<rparr>) a = entry_space E a"
    by (cases "data_entries E a") (simp_all add: entry_space_def destroyed_in_def)
qed

lemma TryCleanAll_state:
  assumes run: "TryCleanAll Skiplist_Purge c = Some (Return c')"
      and o: "oldest = OldestSnapshotTS (UpdatedOldestSnapshot
                 (snd (GetCurrentTimestamp (version_controller (kv_engine c)))))"
      and q: "fetch_thread_caches (thread_cache c) (global_old_data_records c)
                (global_old_delete_records c) = (caches, gd, gx)"
      and ds: "ds = filter (\<lambda>r. newer_version_timestamp r \<le> oldest) (concat gd)"
      and xs: "xs = filter (\<lambda>r. delete_newer_version_timestamp r \<le> oldest) (concat gx)"
      and p1: "pending1 = pending_free_space_entries c @
                 (if xs = [] then []
                  else [\<lparr>entries = map (\<lambda>r. entry_space (kv_engine c) (pmem_delete_record r)) xs,
                         free_ts = clock (version_controller (kv_engine c)) + 1\<rparr>])"
  shows "global_old_data_records c' =
           [filter (\<lambda>r. \<not> newer_version_timestamp r \<le> oldest) (concat gd)]"
    and "global_old_delete_records c' =
           [filter (\<lambda>r. \<not> delete_newer_version_timestamp r \<le> oldest) (concat gx)]"
    and "data_entries (kv_engine c') = destroyed_in (kv_engine c) (pmem_data_record ` set ds)"
    and "hash_entries (kv_engine c') = cleared_in (kv_engine c) xs"
    and "purge_calls (kv_engine c') =
           purge_calls (kv_engine c) @ purge_log (kv_engine c) (purge_races (kv_engine c)) xs"
    and "pending_free_space_entries c' = dropWhile (\<lambda>b. free_ts b < oldest) pending1"
    and "batch_freed (kv_engine c') =
           batch_freed (kv_engine c) @
           map entries (takeWhile (\<lambda>b. free_ts b < oldest) pending1) @
           (if ds = [] then []
            else [map (\<lambda>r. entry_space (kv_engine c) (pmem_data_record r)) ds])"
proof -
  define E0 where "E0 = kv_engine c"
  define vc2 where "vc2 = UpdatedOldestSnapshot
                 (snd (GetCurrentTimestamp (version_controller E0)))"
  define E1 where "E1 = E0\<lparr>version_controller := vc2\<rparr>"
  have o': "OldestSnapshotTS vc2 = oldest" using o by (simp add: vc2_def E0_def)
  have s1: "E1 = E1\<lparr>data_entries := destroyed_in E1 {}\<rparr>"
    by (simp add: destroyed_in_empty)
  from run obtain eng2 sf dref where
    d: "clean_global_data oldest gd (E1, [], []) = Return (eng2, sf, dref)"
    using q o'
    by (auto simp: TryCleanAll_def Let_def case_prod_beta vc2_def E1_def E0_def
             split: outcome.splits)
  have d': "clean_global_data oldest gd (E1\<lparr>data_entries := destroyed_in E1 {}\<rparr>, [], [])
              = Return (eng2, sf, dref)"
    using d s1 by simp
  note D = clean_global_data_state[OF d']
  define E2 where "E2 = E1\<lparr>data_entries := destroyed_in E1 (pmem_data_record ` set ds)\<rparr>"
  have e2: "eng2 = E2" using D by (simp add: E2_def ds)
  have d1: "destroyed_in E1 = destroyed_in E0" "entry_space E1 = entry_space E0"
    by (simp_all add: destroyed_in_def entry_space_def E1_def fun_eq_iff)
  have sf: "sf = map (\<lambda>r. entry_space E0 (pmem_data_record r)) ds"
    using D d1 by (simp add: ds)
  from run d obtain eng3 sp xref where
    x: "clean_global_delete Skiplist_Purge oldest gx (eng2, [], []) = Some (Return (eng3, sp, xref))"
    using q o'
    by (auto simp: TryCleanAll_def Let_def case_prod_beta vc2_def E1_def E0_def
             split: outcome.splits option.splits)
  have x': "clean_global_delete Skiplist_Purge oldest gx (after_deletes E2 [], [], [])
              = Some (Return (eng3, sp, xref))"
    using x e2 by (simp add: after_deletes_Nil)
  note X = clean_global_delete_state[OF x']
  have e3: "eng3 = after_deletes E2 xs" using X by (simp add: xs)
  have t1: "type_at E1 = type_at E0" by (simp add: E1_def type_at_def fun_eq_iff)
  have t2: "type_at E2 = type_at E0" "hash_entries E2 = hash_entries E0"
           "skiplist_nodes E2 = skiplist_nodes E0"
    using destroyed_in_frame(1)[of E1 "pmem_data_record ` set ds"] t1
    by (simp_all add: E2_def) (simp_all add: E1_def)
  note C = indexed_cong[OF t2]
  have es2: "entry_space E2 a = entry_space E0 a" for a
    using destroyed_in_frame(2)[of E1 "pmem_data_record ` set ds" a] d1 by (simp add: E2_def)
  have sp: "sp = map (\<lambda>r. entry_space E0 (pmem_delete_record r)) xs"
    using X es2 by (simp add: xs)
  have now: "fst (GetCurrentTimestamp (version_controller eng3)) = clock (version_controller E0) + 1"
    by (simp add: e3 E2_def E1_def vc2_def GetCurrentTimestamp_def UpdatedOldestSnapshot_def)
  have pend: "pending1 = pending_free_space_entries c @
                 (if length sp > 0
                  then [\<lparr>entries = sp, free_ts = fst (GetCurrentTimestamp (version_controller eng3))\<rparr>]
                  else [])"
    using p1 sp now by (simp add: E0_def)
  define vc3 where "vc3 = (if length sp > 0 then snd (GetCurrentTimestamp (version_controller eng3))
                           else version_controller eng3)"
  obtain eng4 pending2 where
    fp: "free_pending oldest (eng3\<lparr>version_controller := vc3\<rparr>) pending1 = (eng4, pending2)"
    by (cases "free_pending oldest (eng3\<lparr>version_controller := vc3\<rparr>) pending1") auto
  define eng5 where "eng5 = (if length sf > 0 then BatchFree eng4 sf else eng4)"
  have c': "c' = c\<lparr>thread_cache := caches,
                   global_old_data_records := [dref],
                   global_old_delete_records := [xref],
                   pending_free_space_entries := pending2,
                   last_clean_all_ts := fst (GetCurrentTimestamp (version_controller (kv_engine c))),
                   kv_engine := eng5\<rparr>"
    using run q o' d x fp
    by (auto simp: TryCleanAll_def Let_def case_prod_beta vc2_def E1_def E0_def pend
             vc3_def eng5_def)
  note F = free_pending_eq[OF fp]
  show "global_old_data_records c' =
           [filter (\<lambda>r. \<not> newer_version_timestamp r \<le> oldest) (concat gd)]"
    using D by (simp add: c')
  show "global_old_delete_records c' =
           [filter (\<lambda>r. \<not> delete_newer_version_timestamp r \<le> oldest) (concat gx)]"
    using X by (simp add: c')
  show "data_entries (kv_engine c') = destroyed_in (kv_engine c) (pmem_data_record ` set ds)"
    using F d1 by (simp add: c' eng5_def BatchFree_def e3 E2_def E0_def)
  show "hash_entries (kv_engine c') = cleared_in (kv_engine c) xs"
    using F C by (simp add: c' eng5_def BatchFree_def e3 E0_def)
  have pl: "purge_log E2 n rs = purge_log E0 n rs" for n rs
    by (rule purge_log_cong) (simp_all add: C)
  show "purge_calls (kv_engine c') =
           purge_calls (kv_engine c) @ purge_log (kv_engine c) (purge_races (kv_engine c)) xs"
    using F pl by (simp add: c' eng5_def BatchFree_def e3) (simp add: E2_def E1_def E0_def)
  show "pending_free_space_entries c' = dropWhile (\<lambda>b. free_ts b < oldest) pending1"
    using F by (simp add: c')
  have "batch_freed eng3 = batch_freed E0" by (simp add: e3 E2_def E1_def)
  then show "batch_freed (kv_engine c') =
           batch_freed (kv_engine c) @
           map entries (takeWhile (\<lambda>b. free_ts b < oldest) pending1) @
           (if ds = [] then []
            else [map (\<lambda>r. entry_space (kv_engine c) (pmem_data_record r)) ds])"
    using F sf by (auto simp: c' eng5_def BatchFree_def E0_def)
qed

lemma deletes_ok_cong:
  assumes "type_at E' = type_at E" "delete_ok E' = delete_ok E"
          "indexes_tombstone E' = indexes_tombstone E"
  shows "deletes_ok E' done rs = deletes_ok E done rs"
  using assms by (induction rs arbitrary: "done") simp_all

text \<open>The pass returns exactly when every due record can be purged in its turn.\<close>

lemma TryCleanAll_returns:
  assumes o: "oldest = OldestSnapshotTS (UpdatedOldestSnapshot
                 (snd (GetCurrentTimestamp (version_controller (kv_engine c)))))"
      and q: "fetch_thread_caches (thread_cache c) (global_old_data_records c)
                (global_old_delete_records c) = (caches, gd, gx)"
      and ds: "ds = filter (\<lambda>r. newer_version_timestamp r \<le> oldest) (concat gd)"
      and xs: "xs = filter (\<lambda>r. delete_newer_version_timestamp r \<le> oldest) (concat gx)"
  shows "(\<exists>c'. TryCleanAll Skiplist_Purge c = Some (Return c')) =
         ((\<forall>r\<in>set ds. data_ok (kv_engine c) r) \<and> deletes_ok (kv_engine c) [] xs)"
proof -
  define E0 where "E0 = kv_engine c"
  define vc2 where "vc2 = UpdatedOldestSnapshot
                 (snd (GetCurrentTimestamp (version_controller E0)))"
  define E1 where "E1 = E0\<lparr>version_controller := vc2\<rparr>"
  have o': "OldestSnapshotTS vc2 = oldest" using o by (simp add: vc2_def E0_def)
  have s1: "E1 = E1\<lparr>data_entries := destroyed_in E1 {}\<rparr>"
    by (simp add: destroyed_in_empty)
  have "data_ok E1 = data_ok E0" by (simp add: data_ok_def type_at_def E1_def fun_eq_iff)
  then have dk: "(\<forall>r\<in>set (concat gd). newer_version_timestamp r \<le> oldest \<longrightarrow> data_ok E1 r) =
                 (\<forall>r\<in>set ds. data_ok E0 r)"
    by (auto simp: ds)
  have D: "(\<exists>eng2 sf dref. clean_global_data oldest gd (E1, [], []) = Return (eng2, sf, dref)) =
           (\<forall>r\<in>set ds. data_ok E0 r)"
    using clean_global_data_returns[of oldest gd E1 "{}" "[]" "[]"] s1 dk by simp
  define E2 where "E2 = E1\<lparr>data_entries := destroyed_in E1 (pmem_data_record ` set ds)\<rparr>"
  have e2: "eng2 = E2"
    if "clean_global_data oldest gd (E1, [], []) = Return (eng2, sf, dref)" for eng2 sf dref
  proof -
    from that s1
    have "clean_global_data oldest gd (E1\<lparr>data_entries := destroyed_in E1 {}\<rparr>, [], [])
            = Return (eng2, sf, dref)" by simp
    from clean_global_data_state[OF this] show ?thesis by (simp add: E2_def ds)
  qed
  have t1: "type_at E1 = type_at E0" by (simp add: E1_def type_at_def fun_eq_iff)
  have t2: "type_at E2 = type_at E0" "hash_entries E2 = hash_entries E0"
           "skiplist_nodes E2 = skiplist_nodes E0"
    using destroyed_in_frame(1)[of E1 "pmem_data_record ` set ds"] t1
    by (simp_all add: E2_def) (simp_all add: E1_def)
  note C = indexed_cong[OF t2]
  have X: "(\<exists>eng3 sp xref. clean_global_delete Skiplist_Purge oldest gx (E2, [], [])
                             = Some (Return (eng3, sp, xref))) =
           deletes_ok E0 [] xs"
    using clean_global_delete_returns[of oldest gx E2 "[]" "[]" "[]"]
          deletes_ok_cong[OF t2(1) C(6) C(3), of "[]" xs]
    by (simp add: after_deletes_Nil xs)
  show ?thesis
  proof
    assume "\<exists>c'. TryCleanAll Skiplist_Purge c = Some (Return c')"
    then obtain c' where run: "TryCleanAll Skiplist_Purge c = Some (Return c')" by blast
    from run obtain eng2 sf dref where
      d: "clean_global_data oldest gd (E1, [], []) = Return (eng2, sf, dref)"
      using q o'
      by (auto simp: TryCleanAll_def Let_def case_prod_beta vc2_def E1_def E0_def
               split: outcome.splits)
    from run d obtain eng3 sp xref where
      x: "clean_global_delete Skiplist_Purge oldest gx (eng2, [], []) = Some (Return (eng3, sp, xref))"
      using q o'
      by (auto simp: TryCleanAll_def Let_def case_prod_beta vc2_def E1_def E0_def
               split: outcome.splits option.splits)
    from d D have "\<forall>r\<in>set ds. data_ok E0 r" by blast
    moreover from x e2[OF d] X have "deletes_ok E0 [] xs" by blast
    ultimately show "(\<forall>r\<in>set ds. data_ok (kv_engine c) r) \<and> deletes_ok (kv_engine c) [] xs"
      by (simp add: E0_def)
  next
    assume "(\<forall>r\<in>set ds. data_ok (kv_engine c) r) \<and> deletes_ok (kv_engine c) [] xs"
    then have dk0: "\<forall>r\<in>set ds. data_ok E0 r" and xk0: "deletes_ok E0 [] xs"
      by (simp_all add: E0_def)
    from dk0 D obtain eng2 sf dref where
      d: "clean_global_data oldest gd (E1, [], []) = Return (eng2, sf, dref)" by blast
    from xk0 X obtain eng3 sp xref where
      "clean_global_delete Skiplist_Purge oldest gx (E2, [], []) = Some (Return (eng3, sp, xref))"
      by blast
    with e2[OF d] have x: "clean_global_delete Skiplist_Purge oldest gx (eng2, [], [])
       = Some (Return (eng3, sp, xref))" by simp
    show "\<exists>c'. TryCleanAll Skiplist_Purge c = Some (Return c')"
      using q o' d x
      by (simp add: TryCleanAll_def Let_def case_prod_beta vc2_def[symmetric] E1_def[symmetric]
            E0_def[symmetric])
  qed
qed

section \<open>Properties used by the examples\<close>

subsection \<open>The random draw\<close>

text \<open>Of the values of a 64-bit draw, half are even and half are odd.\<close>

lemma even_draws: "card {d :: 64 word. d mod 2 = 0} = 2 ^ 63"
  and odd_draws: "card {d :: 64 word. d mod 2 \<noteq> 0} = 2 ^ 63"
proof -
  let ?E = "{d :: 64 word. d mod 2 = 0}"
  let ?O = "{d :: 64 word. d mod 2 \<noteq> 0}"
  have e: "?E = {d. even d}" by (simp only: even_iff_mod_2_eq_zero)
  have o: "?O = {d. odd d}" by (simp only: even_iff_mod_2_eq_zero)
  have "bij_betw (\<lambda>d. d + 1) {d :: 64 word. even d} {d. odd d}"
    by (rule bij_betw_byWitness[where f' = "\<lambda>d. d - 1"]) auto
  then have c: "card ?E = card ?O" unfolding e o by (rule bij_betw_same_card)
  have "?E \<union> ?O = UNIV" "?E \<inter> ?O = {}" unfolding e o by auto
  then have "card ?E + card ?O = card (UNIV :: 64 word set)"
    using card_Un_disjoint[of ?E ?O] by simp
  also have "\<dots> = 2 ^ 64" by (simp add: card_word)
  finally have "2 * card ?E = 2 * 2 ^ 63" using c by simp
  then show "card ?E = 2 ^ 63" by simp
  with c show "card ?O = 2 ^ 63" by simp
qed

text \<open>The calls of a put of a new key, for every draw.\<close>

lemma Put_new_calls:
  assumes pw: "PrepareWrite bld hl (InitWriteArgs hl k v WriteOp_Put) ts = Return (Ok, args, hl1)"
      and lr: "lr = args_lookup_result args"
      and wa: "wa = \<lparr>wa_key = InternalKey hl k, wa_value = v, wa_type = HashElem,
                     wa_status = Normal, wa_ts = ts, wa_space = args_space args\<rparr>"
      and n: "n = space_offset (args_space args)"
      and nf: "lookup_s lr = NotFound"
      and new: "pmem hl (dl_header hl) \<noteq> None"
  shows "calls_of (Put bld d hl k v ts) =
           Some (calls hl1 @
                 [if d mod 2 = 0 then Call_PushBack wa else Call_PushFront wa,
                  Call_Insert (entry_ptr lr) HashElem Normal (Some n) PointerType_DLRecord])"
proof -
  have f: "lookup_s lr = Ok \<longrightarrow>
                    (\<exists>ex r. index_ptr (entry lr) = Some ex \<and> pmem hl ex = Some r \<and>
                            linked (pmem hl) ex \<and> (kvdk_assert_on bld \<longrightarrow> timestamp r < ts))"
    using nf by simp
  have g: "lookup_s lr = NotFound \<longrightarrow> pmem hl (dl_header hl) \<noteq> None" using new by simp
  from Put_after_PrepareWrite[OF pw lr wa n f g, of d] nf
  obtain ret hl' where "Put bld d hl k v ts = Some (Return (ret, hl'))"
    "calls hl' = calls hl1 @
                 [if d mod 2 = 0 then Call_PushBack wa else Call_PushFront wa,
                  Call_Insert (entry_ptr lr) HashElem Normal (Some n) PointerType_DLRecord]"
    by auto
  then show ?thesis by (simp add: calls_of_def)
qed

lemma Put_new_draws:
  assumes pw: "PrepareWrite bld hl (InitWriteArgs hl k v WriteOp_Put) ts = Return (Ok, args, hl1)"
      and lr: "lr = args_lookup_result args"
      and wa: "wa = \<lparr>wa_key = InternalKey hl k, wa_value = v, wa_type = HashElem,
                     wa_status = Normal, wa_ts = ts, wa_space = args_space args\<rparr>"
      and n: "n = space_offset (args_space args)"
      and nf: "lookup_s lr = NotFound"
      and new: "pmem hl (dl_header hl) \<noteq> None"
  shows "card {d. calls_of (Put bld d hl k v ts) =
                    Some (calls hl1 @
                      [Call_PushBack wa,
                       Call_Insert (entry_ptr lr) HashElem Normal (Some n) PointerType_DLRecord])}
           = 2 ^ 63"
    and "card {d. calls_of (Put bld d hl k v ts) =
                    Some (calls hl1 @
                      [Call_PushFront wa,
                       Call_Insert (entry_ptr lr) HashElem Normal (Some n) PointerType_DLRecord])}
           = 2 ^ 63"
proof -
  note P = Put_new_calls[OF pw lr wa n nf new]
  have "{d. calls_of (Put bld d hl k v ts) =
                    Some (calls hl1 @
                      [Call_PushBack wa,
                       Call_Insert (entry_ptr lr) HashElem Normal (Some n) PointerType_DLRecord])}
        = {d. d mod 2 = 0}"
    by (auto simp: P)
  then show "card {d. calls_of (Put bld d hl k v ts) =
                    Some (calls hl1 @
                      [Call_PushBack wa,
                       Call_Insert (entry_ptr lr) HashElem Normal (Some n) PointerType_DLRecord])}
           = 2 ^ 63"
    using even_draws by simp
  have "{d. calls_of (Put bld d hl k v ts) =
                    Some (calls hl1 @
                      [Call_PushFront wa,
                       Call_Insert (entry_ptr lr) HashElem Normal (Some n) PointerType_DLRecord])}
        = {d. d mod 2 \<noteq> 0}"
    by (auto simp: P)
  then show "card {d. calls_of (Put bld d hl k v ts) =
                    Some (calls hl1 @
                      [Call_PushFront wa,
                       Call_Insert (entry_ptr lr) HashElem Normal (Some n) PointerType_DLRecord])}
           = 2 ^ 63"
    using odd_draws by simp
qed

subsection \<open>The example collection with disturbed updates\<close>

lemma ex_raced_fields: "pmem ex_hl_raced = ex_pmem" "hash_table ex_hl_raced = ex_table"
  "dl_header ex_hl_raced = 64" "InternalKey ex_hl_raced k = EncodeID 1 @ k"
  "calls ex_hl_raced = []" "self ex_hl_raced = 7" "list_size ex_hl_raced = 1"
  "update_races ex_hl_raced = Suc (Suc 0)" "update_races ex_hl = 0"
  by (simp_all add: ex_hl_raced_def ex_hl_def InternalKey_def numeral_2_eq_2)

lemma ex_raced_PrepareWrite_put:
  "PrepareWrite ex_build ex_hl_raced (InitWriteArgs ex_hl_raced k v WriteOp_Put) ts =
     Return (Ok,
       (InitWriteArgs ex_hl_raced k v WriteOp_Put)
          \<lparr>args_ts := ts,
           args_lookup_result := Lookup True ex_table (EncodeID 1 @ k) HashElem,
           args_space := \<lparr>space_offset = 256, space_size = 128\<rparr>\<rparr>,
       ex_hl_raced\<lparr>grants := [\<lparr>space_offset = 384, space_size = 128\<rparr>],
             calls := [Call_Lookup True (EncodeID 1 @ k) HashElem,
                       Call_Allocate (RecordSize (EncodeID 1 @ k) v)]\<rparr>)"
  by (auto simp: PrepareWrite_def InitWriteArgs_def hash_lookup_def Let_def Allocate_def
        ex_build_def ex_hl_def ex_hl_raced_def InternalKey_def Lookup_def ex_table_def
        split: Status.splits)

section \<open>The claims\<close>

text \<open>
  C1 (amended). For every Put whose PrepareWrite succeeded: when the lookup returned \<open>Ok\<close>
  (the index holds a record for the key, live or tombstone) and that record is linked, the
  write replaces it in place through \<^verbatim>\<open>DLList::Update\<close>: every call that answers \<open>Fail\<close>
  is followed by another call, until the call that answers \<open>Ok\<close>; then the new record has the
  existing one as its old version and the index entry is rewritten. When the lookup returned
  \<open>NotFound\<close>, the new record is pushed next to the header, at the back when the random draw is
  even and at the front when it is odd; exactly half of the values of the 64-bit draw push at
  the back and half at the front, so that a uniform draw makes a uniform choice.
\<close>

theorem C1_put_updates_found_record_else_pushes:
  assumes pw: "PrepareWrite bld hl (InitWriteArgs hl k v WriteOp_Put) ts = Return (Ok, args, hl1)"
      and lr: "lr = args_lookup_result args"
      and wa: "wa = \<lparr>wa_key = InternalKey hl k, wa_value = v, wa_type = HashElem,
                     wa_status = Normal, wa_ts = ts, wa_space = args_space args\<rparr>"
      and n: "n = space_offset (args_space args)"
      and found: "lookup_s lr = Ok \<longrightarrow>
                    (\<exists>ex r. index_ptr (entry lr) = Some ex \<and> pmem hl ex = Some r \<and>
                            linked (pmem hl) ex \<and> (kvdk_assert_on bld \<longrightarrow> timestamp r < ts))"
      and new: "lookup_s lr = NotFound \<longrightarrow> pmem hl (dl_header hl) \<noteq> None"
  shows "(\<exists>ret hl'. Put bld rnd hl k v ts = Some (Return (ret, hl')) \<and>
           (lookup_s lr = Ok \<longrightarrow>
              wr_s ret = Ok \<and> existing_record ret = index_ptr (entry lr) \<and>
              (\<exists>ex. index_ptr (entry lr) = Some ex \<and>
                 calls hl' = calls hl1 @ replicate (update_races hl) (Call_Update wa ex Fail) @
                   [Call_Update wa ex Ok,
                    Call_Insert (entry_ptr lr) HashElem Normal (Some n) PointerType_DLRecord] \<and>
                 update_races hl' = 0 \<and>
                 (\<exists>r'. pmem hl' n = Some r' \<and> old_version r' = Some ex))) \<and>
           (lookup_s lr = NotFound \<longrightarrow>
              wr_s ret = Ok \<and> existing_record ret = None \<and>
              calls hl' = calls hl1 @
                 [if rnd mod 2 = 0 then Call_PushBack wa else Call_PushFront wa,
                  Call_Insert (entry_ptr lr) HashElem Normal (Some n) PointerType_DLRecord])) \<and>
         (lookup_s lr = NotFound \<longrightarrow>
            card {d. calls_of (Put bld d hl k v ts) =
                       Some (calls hl1 @
                         [Call_PushBack wa,
                          Call_Insert (entry_ptr lr) HashElem Normal (Some n) PointerType_DLRecord])}
              = 2 ^ 63 \<and>
            card {d. calls_of (Put bld d hl k v ts) =
                       Some (calls hl1 @
                         [Call_PushFront wa,
                          Call_Insert (entry_ptr lr) HashElem Normal (Some n) PointerType_DLRecord])}
              = 2 ^ 63)"
proof (intro conjI impI)
  show "\<exists>ret hl'. Put bld rnd hl k v ts = Some (Return (ret, hl')) \<and>
           (lookup_s lr = Ok \<longrightarrow>
              wr_s ret = Ok \<and> existing_record ret = index_ptr (entry lr) \<and>
              (\<exists>ex. index_ptr (entry lr) = Some ex \<and>
                 calls hl' = calls hl1 @ replicate (update_races hl) (Call_Update wa ex Fail) @
                   [Call_Update wa ex Ok,
                    Call_Insert (entry_ptr lr) HashElem Normal (Some n) PointerType_DLRecord] \<and>
                 update_races hl' = 0 \<and>
                 (\<exists>r'. pmem hl' n = Some r' \<and> old_version r' = Some ex))) \<and>
           (lookup_s lr = NotFound \<longrightarrow>
              wr_s ret = Ok \<and> existing_record ret = None \<and>
              calls hl' = calls hl1 @
                 [if rnd mod 2 = 0 then Call_PushBack wa else Call_PushFront wa,
                  Call_Insert (entry_ptr lr) HashElem Normal (Some n) PointerType_DLRecord])"
    by (rule Put_after_PrepareWrite[OF pw lr wa n found new])
next
  assume nf: "lookup_s lr = NotFound"
  with new have h: "pmem hl (dl_header hl) \<noteq> None" by simp
  show "card {d. calls_of (Put bld d hl k v ts) =
                       Some (calls hl1 @
                         [Call_PushBack wa,
                          Call_Insert (entry_ptr lr) HashElem Normal (Some n) PointerType_DLRecord])}
              = 2 ^ 63"
    by (rule Put_new_draws(1)[OF pw lr wa n nf h])
  show "card {d. calls_of (Put bld d hl k v ts) =
                       Some (calls hl1 @
                         [Call_PushFront wa,
                          Call_Insert (entry_ptr lr) HashElem Normal (Some n) PointerType_DLRecord])}
              = 2 ^ 63"
    by (rule Put_new_draws(2)[OF pw lr wa n nf h])
qed

text \<open>
  The theorem at work on the example collection: a put over the live element \<open>a\<close> while two
  calls of Update are disturbed, a put of the new key \<open>c\<close> with an odd draw, and the number
  of draws with which the put of \<open>c\<close> pushes at the back.
\<close>

theorem C1_witness:
  "(\<exists>ret hl'. Put ex_build 0 ex_hl_raced ''a'' ''2'' 40 = Some (Return (ret, hl')) \<and>
      wr_s ret = Ok \<and> existing_record ret = Some 128 \<and>
      calls hl' =
        [Call_Lookup True (EncodeID 1 @ ''a'') HashElem, Call_Allocate 128,
         Call_Update \<lparr>wa_key = EncodeID 1 @ ''a'', wa_value = ''2'', wa_type = HashElem,
                       wa_status = Normal, wa_ts = 40,
                       wa_space = \<lparr>space_offset = 256, space_size = 128\<rparr>\<rparr> 128 Fail,
         Call_Update \<lparr>wa_key = EncodeID 1 @ ''a'', wa_value = ''2'', wa_type = HashElem,
                       wa_status = Normal, wa_ts = 40,
                       wa_space = \<lparr>space_offset = 256, space_size = 128\<rparr>\<rparr> 128 Fail,
         Call_Update \<lparr>wa_key = EncodeID 1 @ ''a'', wa_value = ''2'', wa_type = HashElem,
                       wa_status = Normal, wa_ts = 40,
                       wa_space = \<lparr>space_offset = 256, space_size = 128\<rparr>\<rparr> 128 Ok,
         Call_Insert (Some (EncodeID 1 @ ''a'', HashElem)) HashElem Normal (Some 256)
           PointerType_DLRecord] \<and>
      (\<exists>r'. pmem hl' 256 = Some r' \<and> old_version r' = Some 128)) \<and>
   (\<exists>ret hl'. Put ex_build 1 ex_hl ''c'' ''2'' 40 = Some (Return (ret, hl')) \<and>
      existing_record ret = None \<and>
      calls hl' =
        [Call_Lookup True (EncodeID 1 @ ''c'') HashElem, Call_Allocate 128,
         Call_PushFront \<lparr>wa_key = EncodeID 1 @ ''c'', wa_value = ''2'', wa_type = HashElem,
                          wa_status = Normal, wa_ts = 40,
                          wa_space = \<lparr>space_offset = 256, space_size = 128\<rparr>\<rparr>,
         Call_Insert (Some (EncodeID 1 @ ''c'', HashElem)) HashElem Normal (Some 256)
           PointerType_DLRecord]) \<and>
   card {d. calls_of (Put ex_build d ex_hl ''c'' ''2'' 40) =
        Some [Call_Lookup True (EncodeID 1 @ ''c'') HashElem, Call_Allocate 128,
         Call_PushBack \<lparr>wa_key = EncodeID 1 @ ''c'', wa_value = ''2'', wa_type = HashElem,
                          wa_status = Normal, wa_ts = 40,
                          wa_space = \<lparr>space_offset = 256, space_size = 128\<rparr>\<rparr>,
         Call_Insert (Some (EncodeID 1 @ ''c'', HashElem)) HashElem Normal (Some 256)
           PointerType_DLRecord]} = 2 ^ 63"
proof (intro conjI)
  show "\<exists>ret hl'. Put ex_build 0 ex_hl_raced ''a'' ''2'' 40 = Some (Return (ret, hl')) \<and>
      wr_s ret = Ok \<and> existing_record ret = Some 128 \<and>
      calls hl' =
        [Call_Lookup True (EncodeID 1 @ ''a'') HashElem, Call_Allocate 128,
         Call_Update \<lparr>wa_key = EncodeID 1 @ ''a'', wa_value = ''2'', wa_type = HashElem,
                       wa_status = Normal, wa_ts = 40,
                       wa_space = \<lparr>space_offset = 256, space_size = 128\<rparr>\<rparr> 128 Fail,
         Call_Update \<lparr>wa_key = EncodeID 1 @ ''a'', wa_value = ''2'', wa_type = HashElem,
                       wa_status = Normal, wa_ts = 40,
                       wa_space = \<lparr>space_offset = 256, space_size = 128\<rparr>\<rparr> 128 Fail,
         Call_Update \<lparr>wa_key = EncodeID 1 @ ''a'', wa_value = ''2'', wa_type = HashElem,
                       wa_status = Normal, wa_ts = 40,
                       wa_space = \<lparr>space_offset = 256, space_size = 128\<rparr>\<rparr> 128 Ok,
         Call_Insert (Some (EncodeID 1 @ ''a'', HashElem)) HashElem Normal (Some 256)
           PointerType_DLRecord] \<and>
      (\<exists>r'. pmem hl' 256 = Some r' \<and> old_version r' = Some 128)"
    using C1_put_updates_found_record_else_pushes
            [OF ex_raced_PrepareWrite_put[of "''a''" "''2''" 40] refl refl refl, of 0]
    apply (simp add: ex_lookup_a ex_raced_fields ex_pmem_at ex_linked ex_a_def
             ConstructDLRecord_def ex_RecordSize)
    apply blast
    done
  show "\<exists>ret hl'. Put ex_build 1 ex_hl ''c'' ''2'' 40 = Some (Return (ret, hl')) \<and>
      existing_record ret = None \<and>
      calls hl' =
        [Call_Lookup True (EncodeID 1 @ ''c'') HashElem, Call_Allocate 128,
         Call_PushFront \<lparr>wa_key = EncodeID 1 @ ''c'', wa_value = ''2'', wa_type = HashElem,
                          wa_status = Normal, wa_ts = 40,
                          wa_space = \<lparr>space_offset = 256, space_size = 128\<rparr>\<rparr>,
         Call_Insert (Some (EncodeID 1 @ ''c'', HashElem)) HashElem Normal (Some 256)
           PointerType_DLRecord]"
    using C1_put_updates_found_record_else_pushes
            [OF ex_PrepareWrite_put[of "''c''" "''2''" 40] refl refl refl, of 1]
    apply (simp add: ex_lookup_c ex_fields ex_pmem_at ex_RecordSize)
    apply blast
    done
  show "card {d. calls_of (Put ex_build d ex_hl ''c'' ''2'' 40) =
        Some [Call_Lookup True (EncodeID 1 @ ''c'') HashElem, Call_Allocate 128,
         Call_PushBack \<lparr>wa_key = EncodeID 1 @ ''c'', wa_value = ''2'', wa_type = HashElem,
                          wa_status = Normal, wa_ts = 40,
                          wa_space = \<lparr>space_offset = 256, space_size = 128\<rparr>\<rparr>,
         Call_Insert (Some (EncodeID 1 @ ''c'', HashElem)) HashElem Normal (Some 256)
           PointerType_DLRecord]} = 2 ^ 63"
    using C1_put_updates_found_record_else_pushes
            [OF ex_PrepareWrite_put[of "''c''" "''2''" 40] refl refl refl, of 1]
    by (simp add: ex_lookup_c ex_fields ex_pmem_at ex_RecordSize)
qed

text \<open>
  C1 as stated fails on a tombstone: the index holds an outdated entry for \<open>b\<close>, and the put
  calls \<^verbatim>\<open>Update\<close> on the tombstone and never pushes.
\<close>

theorem C1_counterexample:
  "entry_status (entry (Lookup True (hash_table ex_hl) (InternalKey ex_hl ''b'') HashElem)) = Outdated \<and>
   calls_of (Put ex_build 0 ex_hl ''b'' ''3'' 40) =
     Some [Call_Lookup True (EncodeID 1 @ ''b'') HashElem,
           Call_Allocate 128,
           Call_Update \<lparr>wa_key = EncodeID 1 @ ''b'', wa_value = ''3'', wa_type = HashElem,
                        wa_status = Normal, wa_ts = 40,
                        wa_space = \<lparr>space_offset = 256, space_size = 128\<rparr>\<rparr> 192 Ok,
           Call_Insert (Some (EncodeID 1 @ ''b'', HashElem)) HashElem Normal (Some 256)
             PointerType_DLRecord]"
proof -
  note pw = ex_PrepareWrite_put[of "''b''" "''3''" 40]
  have "\<exists>ret hl'. Put ex_build 0 ex_hl ''b'' ''3'' 40 = Some (Return (ret, hl')) \<and>
     calls hl' = [Call_Lookup True (EncodeID 1 @ ''b'') HashElem,
           Call_Allocate 128,
           Call_Update \<lparr>wa_key = EncodeID 1 @ ''b'', wa_value = ''3'', wa_type = HashElem,
                        wa_status = Normal, wa_ts = 40,
                        wa_space = \<lparr>space_offset = 256, space_size = 128\<rparr>\<rparr> 192 Ok,
           Call_Insert (Some (EncodeID 1 @ ''b'', HashElem)) HashElem Normal (Some 256)
             PointerType_DLRecord]"
    using Put_after_PrepareWrite[OF pw refl refl refl, of 0]
    apply (simp add: ex_lookup_b ex_fields ex_raced_fields ex_pmem_at ex_linked ex_b_def
          ConstructDLRecord_def ex_RecordSize)
    apply blast
    done
  then show ?thesis
    by (auto simp: calls_of_def ex_fields ex_lookup_b)
qed

text \<open>
  C2 (amended). When the lookup is not \<open>Ok\<close> or the entry is outdated, Get returns NotFound
  and leaves the buffer alone. Otherwise it reads the status of the record first: an outdated
  record gives NotFound; a live one gives \<open>Ok\<close> with the value as it is read afterwards.
  The status is not read again after the value.
\<close>

theorem C2_get_checks_status_before_value:
  assumes lr: "lr = Lookup False (hash_table hl) (InternalKey hl k) HashElem"
  shows "(lookup_s lr \<noteq> Ok \<or> entry_status (entry lr) = Outdated \<longrightarrow>
            Get bld hl h_check h_read k buf = Return (NotFound, buf)) \<and>
         (lookup_s lr = Ok \<and> entry_status (entry lr) = Normal \<and>
          index_ptr (entry lr) = Some p \<and> h_check p = Some r \<and>
          (kvdk_assert_on bld \<longrightarrow> record_type r = HashElem) \<longrightarrow>
            (record_status r = Outdated \<longrightarrow>
               Get bld hl h_check h_read k buf = Return (NotFound, buf)) \<and>
            (record_status r = Normal \<and> h_read p = Some r' \<longrightarrow>
               Get bld hl h_check h_read k buf = Return (Ok, Value r')))"
  using Get_not_found[OF lr] Get_found[OF lr] by blast

text \<open>Get on the tombstone, on the live element, and on an element outdated before the check.\<close>

theorem C2_witness:
  "Get ex_build ex_hl ex_pmem ex_pmem ''b'' ''old'' = Return (NotFound, ''old'') \<and>
   Get ex_build ex_hl ex_pmem ex_pmem ''a'' ''old'' = Return (Ok, ''1'') \<and>
   Get ex_build ex_hl (ex_pmem(128 \<mapsto> ex_a\<lparr>record_status := Outdated\<rparr>)) ex_pmem ''a'' ''old''
     = Return (NotFound, ''old'')"
  using C2_get_checks_status_before_value[OF refl, where hl = ex_hl and k = "''b''"
           and bld = ex_build and h_check = ex_pmem and h_read = ex_pmem and buf = "''old''"]
        C2_get_checks_status_before_value[OF refl, where hl = ex_hl and k = "''a''" and p = 128
           and r = ex_a and r' = ex_a
           and bld = ex_build and h_check = ex_pmem and h_read = ex_pmem and buf = "''old''"]
        C2_get_checks_status_before_value[OF refl, where hl = ex_hl and k = "''a''" and p = 128
           and r = "ex_a\<lparr>record_status := Outdated\<rparr>" and bld = ex_build
           and h_check = "ex_pmem(128 \<mapsto> ex_a\<lparr>record_status := Outdated\<rparr>)"
           and h_read = ex_pmem and buf = "''old''"]
  by (simp add: ex_fields ex_lookup_a ex_lookup_b ex_pmem_at ex_a_def ConstructDLRecord_def)

text \<open>
  C2 as stated fails when the record becomes outdated after the check and before the value
  is copied: Get answers \<open>Ok\<close> with what it reads.
\<close>

theorem C2_counterexample:
  "Get ex_build ex_hl ex_pmem (ex_pmem(128 \<mapsto> ex_a\<lparr>record_status := Outdated, Value := []\<rparr>))
     ''a'' ''old'' = Return (Ok, [])"
  by (simp add: Get_def Let_def ex_fields ex_lookup_a ex_pmem_at ex_a_def ConstructDLRecord_def
        ex_build_def)

text \<open>
  C3. When the index holds a tombstone or nothing for the key, PrepareWrite for a delete
  returns \<open>Ok\<close> after its lookup without a request to the allocator, Delete returns \<open>Ok\<close>
  with no record, and only the call log grows by the lookup. After a Delete that returned
  \<open>Ok\<close>, a later Delete of the same key is such a no-op.
\<close>

theorem C3_delete_of_tombstone_or_absent_is_noop:
  "(tombstone_or_absent hl k \<longrightarrow>
      PrepareWrite bld hl (InitWriteArgs hl k [] WriteOp_Delete) ts =
        Return (Ok,
          (InitWriteArgs hl k [] WriteOp_Delete)
            \<lparr>args_ts := ts,
             args_lookup_result := Lookup False (hash_table hl) (InternalKey hl k) HashElem\<rparr>,
          hl\<lparr>calls := calls hl @ [Call_Lookup False (InternalKey hl k) HashElem]\<rparr>) \<and>
      Delete bld rnd hl k ts =
        Some (Return (WriteResult_default,
                hl\<lparr>calls := calls hl @ [Call_Lookup False (InternalKey hl k) HashElem]\<rparr>))) \<and>
   (Delete bld rnd hl k ts = Some (Return (ret, hl')) \<and> wr_s ret = Ok \<and> ts < ts' \<longrightarrow>
      Delete bld rnd' hl' k ts' =
        Some (Return (WriteResult_default,
                hl'\<lparr>calls := calls hl' @ [Call_Lookup False (InternalKey hl' k) HashElem]\<rparr>)))"
  using PrepareWrite_delete_noop Delete_noop Delete_leaves_tombstone by blast

text \<open>A delete of the tombstone \<open>b\<close>; a delete of the live \<open>a\<close> followed by a second one.\<close>

theorem C3_witness:
  "Delete ex_build 0 ex_hl ''b'' 30 =
     Some (Return (WriteResult_default,
             ex_hl\<lparr>calls := [Call_Lookup False (EncodeID 1 @ ''b'') HashElem]\<rparr>)) \<and>
   (\<exists>hl'. Delete ex_build 0 ex_hl ''a'' 30 =
            Some (Return (WriteResult_default\<lparr>wr_s := Ok, existing_record := Some 128,
                            write_record := Some 256\<rparr>, hl')) \<and>
          Delete ex_build 0 hl' ''a'' 40 =
            Some (Return (WriteResult_default,
                    hl'\<lparr>calls := calls hl' @ [Call_Lookup False (InternalKey hl' ''a'') HashElem]\<rparr>)))"
proof
  have t: "tombstone_or_absent ex_hl ''b''"
    by (simp add: tombstone_or_absent_def ex_fields ex_table_def)
  with C3_delete_of_tombstone_or_absent_is_noop[where hl = ex_hl and k = "''b''"
         and bld = ex_build and ts = 30 and rnd = 0]
  show "Delete ex_build 0 ex_hl ''b'' 30 =
     Some (Return (WriteResult_default,
             ex_hl\<lparr>calls := [Call_Lookup False (EncodeID 1 @ ''b'') HashElem]\<rparr>))"
    by (simp add: ex_fields)
  obtain hl' where d: "Delete ex_build 0 ex_hl ''a'' 30 =
            Some (Return (WriteResult_default\<lparr>wr_s := Ok, existing_record := Some 128,
                            write_record := Some 256\<rparr>, hl'))"
    using Delete_existing[where hl = ex_hl and k = "''a''" and r = ex_a and ts = 30
            and g = "\<lparr>space_offset = 256, space_size = 128\<rparr>"
            and gs = "[\<lparr>space_offset = 384, space_size = 128\<rparr>]"
            and bld = ex_build and rnd = 0, OF refl]
    by (simp add: ex_fields ex_lookup_a ex_pmem_at ex_linked ex_a_def ConstructDLRecord_def
          ex_RecordSize) (auto simp: ex_hl_def)
  have "wr_s (WriteResult_default\<lparr>wr_s := Ok, existing_record := Some 128,
                            write_record := Some 256\<rparr>) = Ok" by simp
  with d C3_delete_of_tombstone_or_absent_is_noop[where hl = ex_hl and k = "''a''"
         and bld = ex_build and ts = 30 and rnd = 0 and hl' = hl' and ts' = 40 and rnd' = 0
         and ret = "WriteResult_default\<lparr>wr_s := Ok, existing_record := Some 128,
                            write_record := Some 256\<rparr>"]
  show "\<exists>hl'. Delete ex_build 0 ex_hl ''a'' 30 =
            Some (Return (WriteResult_default\<lparr>wr_s := Ok, existing_record := Some 128,
                            write_record := Some 256\<rparr>, hl')) \<and>
          Delete ex_build 0 hl' ''a'' 40 =
            Some (Return (WriteResult_default,
                    hl'\<lparr>calls := calls hl' @ [Call_Lookup False (InternalKey hl' ''a'') HashElem]\<rparr>))"
    by auto
qed

text \<open>
  C4. Take the global queues as they are after the worker caches were fetched, and the oldest
  snapshot as refreshed at the start of the run; call a queued record due when its newer
  version is not later than the oldest snapshot. A run of TryCleanAll that ends has purged
  exactly the due records: the data entries of the due data records are destroyed and no
  other, and their spaces (offset and size of the entry) are freed at once, in order; the
  hash entries that still pointed at a due delete record are cleared and no other,
  \<^verbatim>\<open>Skiplist::Purge\<close> was called for the due sorted delete records that were still indexed,
  again after each call that met contention, and the spaces of the due delete records form a
  new batch at the tail of the pending batches. The records that are not due are queued
  again. From the head of the pending batches the run frees every batch entered before the
  oldest snapshot up to the first one that was not, and keeps the rest. The run ends exactly
  when every due data record points at a data record and every due delete record can be
  purged in its turn: it points at a delete record, its hash entry exists and, for a sorted
  delete record, is of a kind that indexes sorted records and was not cleared for a delete
  record purged before it.
\<close>

theorem C4_try_clean_all_purges_and_drains:
  assumes o: "oldest = OldestSnapshotTS (UpdatedOldestSnapshot
                 (snd (GetCurrentTimestamp (version_controller (kv_engine c)))))"
      and q: "fetch_thread_caches (thread_cache c) (global_old_data_records c)
                (global_old_delete_records c) = (caches, gd, gx)"
      and ds: "ds = filter (\<lambda>r. newer_version_timestamp r \<le> oldest) (concat gd)"
      and xs: "xs = filter (\<lambda>r. delete_newer_version_timestamp r \<le> oldest) (concat gx)"
      and p: "pending = pending_free_space_entries c @
                (if xs = [] then []
                 else [\<lparr>entries = map (\<lambda>r. entry_space (kv_engine c) (pmem_delete_record r)) xs,
                        free_ts = clock (version_controller (kv_engine c)) + 1\<rparr>])"
  shows "((\<exists>c'. TryCleanAll Skiplist_Purge c = Some (Return c')) =
          ((\<forall>r\<in>set ds. data_ok (kv_engine c) r) \<and> deletes_ok (kv_engine c) [] xs)) \<and>
         (TryCleanAll Skiplist_Purge c = Some (Return c') \<longrightarrow>
          global_old_data_records c' =
            [filter (\<lambda>r. \<not> newer_version_timestamp r \<le> oldest) (concat gd)] \<and>
          global_old_delete_records c' =
            [filter (\<lambda>r. \<not> delete_newer_version_timestamp r \<le> oldest) (concat gx)] \<and>
          data_entries (kv_engine c') =
            destroyed_in (kv_engine c) (pmem_data_record ` set ds) \<and>
          hash_entries (kv_engine c') = cleared_in (kv_engine c) xs \<and>
          purge_calls (kv_engine c') =
            purge_calls (kv_engine c) @
            purge_log (kv_engine c) (purge_races (kv_engine c)) xs \<and>
          pending_free_space_entries c' = dropWhile (\<lambda>b. free_ts b < oldest) pending \<and>
          batch_freed (kv_engine c') =
            batch_freed (kv_engine c) @
            map entries (takeWhile (\<lambda>b. free_ts b < oldest) pending) @
            (if ds = [] then []
             else [map (\<lambda>r. entry_space (kv_engine c) (pmem_data_record r)) ds]))"
proof (intro conjI impI)
  show "(\<exists>c'. TryCleanAll Skiplist_Purge c = Some (Return c')) =
        ((\<forall>r\<in>set ds. data_ok (kv_engine c) r) \<and> deletes_ok (kv_engine c) [] xs)"
    by (rule TryCleanAll_returns[OF o q ds xs])
next
  assume run: "TryCleanAll Skiplist_Purge c = Some (Return c')"
  note S = TryCleanAll_state[OF run o q ds xs p]
  show "global_old_data_records c' =
            [filter (\<lambda>r. \<not> newer_version_timestamp r \<le> oldest) (concat gd)]" by (rule S(1))
  show "global_old_delete_records c' =
            [filter (\<lambda>r. \<not> delete_newer_version_timestamp r \<le> oldest) (concat gx)]"
    by (rule S(2))
  show "data_entries (kv_engine c') = destroyed_in (kv_engine c) (pmem_data_record ` set ds)"
    by (rule S(3))
  show "hash_entries (kv_engine c') = cleared_in (kv_engine c) xs" by (rule S(4))
  show "purge_calls (kv_engine c') =
            purge_calls (kv_engine c) @
            purge_log (kv_engine c) (purge_races (kv_engine c)) xs" by (rule S(5))
  show "pending_free_space_entries c' = dropWhile (\<lambda>b. free_ts b < oldest) pending"
    by (rule S(6))
  show "batch_freed (kv_engine c') =
            batch_freed (kv_engine c) @
            map entries (takeWhile (\<lambda>b. free_ts b < oldest) pending) @
            (if ds = [] then []
             else [map (\<lambda>r. entry_space (kv_engine c) (pmem_data_record r)) ds])"
    by (rule S(7))
qed

text \<open>
  The example cleaner. The data record of 40 is purged: its entry at 512 is destroyed and its
  space freed; the data record of 60 stays queued and its entry at 640 stays. The string
  delete record and the sorted delete record of 45 are purged: their hash entries 3 and 4 are
  cleared, \<^verbatim>\<open>Skiplist::Purge\<close> is called twice for the sorted one because the first call meets
  contention, and their spaces wait in a new batch entered at 101; the delete record of 60
  stays queued with its hash entry 5. The batch of 30 is freed, the batch of 70 stops the
  draining. With the sorted delete record queued twice the run does not end: the second purge
  finds the hash entry cleared by the first and stops the program.
\<close>

theorem C4_witness:
  "(\<exists>c'. TryCleanAll Skiplist_Purge ex_cleaner = Some (Return c') \<and>
        global_old_data_records c' =
          [[\<lparr>pmem_data_record = 640, newer_version_timestamp = 60\<rparr>]] \<and>
        global_old_delete_records c' =
          [[\<lparr>pmem_delete_record = 1280, delete_newer_version_timestamp = 60,
             hash_entry_ref = 5\<rparr>]] \<and>
        data_entries (kv_engine c') 512 =
          Some \<lparr>meta_type = StringDataRecord, header_record_size = 128, destroyed = True\<rparr> \<and>
        data_entries (kv_engine c') 640 =
          Some \<lparr>meta_type = SortedDataRecord, header_record_size = 64, destroyed = False\<rparr> \<and>
        hash_entries (kv_engine c') 3 = Some CleanerHashEntry_empty \<and>
        hash_entries (kv_engine c') 4 = Some CleanerHashEntry_empty \<and>
        hash_entries (kv_engine c') 5 =
          Some \<lparr>offset_type = HashOffsetType_Other 1, index = Some 1280\<rparr> \<and>
        purge_calls (kv_engine c') = [(1024, Some 2048, False), (1024, Some 2048, True)] \<and>
        batch_freed (kv_engine c') =
          [[\<lparr>space_offset = 896, space_size = 64\<rparr>], [\<lparr>space_offset = 512, space_size = 128\<rparr>]] \<and>
        pending_free_space_entries c' =
          [\<lparr>entries = [\<lparr>space_offset = 960, space_size = 64\<rparr>], free_ts = 70\<rparr>,
           \<lparr>entries = [\<lparr>space_offset = 768, space_size = 64\<rparr>,
                       \<lparr>space_offset = 1024, space_size = 192\<rparr>], free_ts = 101\<rparr>]) \<and>
   \<not> (\<exists>c'. TryCleanAll Skiplist_Purge
            (ex_cleaner\<lparr>thread_cache := [],
               global_old_delete_records :=
                 [[\<lparr>pmem_delete_record = 1024, delete_newer_version_timestamp = 45,
                     hash_entry_ref = 4\<rparr>,
                   \<lparr>pmem_delete_record = 1024, delete_newer_version_timestamp = 45,
                     hash_entry_ref = 4\<rparr>]]\<rparr>) = Some (Return c'))"
proof -
  have o: "OldestSnapshotTS (UpdatedOldestSnapshot
             (snd (GetCurrentTimestamp (version_controller (kv_engine ex_cleaner))))) = 50"
    by (simp add: OldestSnapshotTS_def UpdatedOldestSnapshot_def GetCurrentTimestamp_def
          ex_cleaner_def ex_engine_def)
  have q: "fetch_thread_caches (thread_cache ex_cleaner) (global_old_data_records ex_cleaner)
             (global_old_delete_records ex_cleaner) =
           ([\<lparr>old_data_records = [], old_delete_records = []\<rparr>],
            [[\<lparr>pmem_data_record = 512, newer_version_timestamp = 40\<rparr>,
              \<lparr>pmem_data_record = 640, newer_version_timestamp = 60\<rparr>]],
            [[\<lparr>pmem_delete_record = 768, delete_newer_version_timestamp = 45,
               hash_entry_ref = 3\<rparr>,
              \<lparr>pmem_delete_record = 1024, delete_newer_version_timestamp = 45,
               hash_entry_ref = 4\<rparr>,
              \<lparr>pmem_delete_record = 1280, delete_newer_version_timestamp = 60,
               hash_entry_ref = 5\<rparr>]])"
    by (simp add: ex_cleaner_def)
  define r1 where "r1 = \<lparr>pmem_delete_record = 768, delete_newer_version_timestamp = 45,
               hash_entry_ref = 3\<rparr>"
  define r2 where "r2 = \<lparr>pmem_delete_record = 1024, delete_newer_version_timestamp = 45,
               hash_entry_ref = 4\<rparr>"
  have f: "pmem_delete_record r1 = 768" "hash_entry_ref r1 = 3"
          "pmem_delete_record r2 = 1024" "hash_entry_ref r2 = 4"
    by (simp_all add: r1_def r2_def)
  have ds: "[\<lparr>pmem_data_record = 512, newer_version_timestamp = 40\<rparr>] =
            filter (\<lambda>r. newer_version_timestamp r \<le> 50)
              (concat [[\<lparr>pmem_data_record = 512, newer_version_timestamp = 40\<rparr>,
                        \<lparr>pmem_data_record = 640, newer_version_timestamp = 60\<rparr>]])"
    by simp
  have xs: "[r1, r2] =
            filter (\<lambda>r. delete_newer_version_timestamp r \<le> 50)
              (concat [[\<lparr>pmem_delete_record = 768, delete_newer_version_timestamp = 45,
               hash_entry_ref = 3\<rparr>,
              \<lparr>pmem_delete_record = 1024, delete_newer_version_timestamp = 45,
               hash_entry_ref = 4\<rparr>,
              \<lparr>pmem_delete_record = 1280, delete_newer_version_timestamp = 60,
               hash_entry_ref = 5\<rparr>]])"
    by (simp add: r1_def r2_def)
  have e: "kv_engine ex_cleaner = ex_engine"
    "pending_free_space_entries ex_cleaner =
        [\<lparr>entries = [\<lparr>space_offset = 896, space_size = 64\<rparr>], free_ts = 30\<rparr>,
         \<lparr>entries = [\<lparr>space_offset = 960, space_size = 64\<rparr>], free_ts = 70\<rparr>]"
    by (simp_all add: ex_cleaner_def)
  have t: "type_at ex_engine 768 = Some StringDeleteRecord"
          "type_at ex_engine 1024 = Some SortedDeleteRecord"
          "type_at ex_engine 512 = Some StringDataRecord"
    by (simp_all add: type_at_def ex_engine_def)
  have h: "hash_entries ex_engine 3 = Some \<lparr>offset_type = HashOffsetType_Other 1, index = Some 768\<rparr>"
          "hash_entries ex_engine 4 =
             Some \<lparr>offset_type = HashOffsetType_SkiplistNode, index = Some 2048\<rparr>"
          "hash_entries ex_engine 5 = Some \<lparr>offset_type = HashOffsetType_Other 1, index = Some 1280\<rparr>"
          "skiplist_nodes ex_engine 2048 = Some 1024"
          "purge_races ex_engine = Suc 0" "purge_calls ex_engine = []" "batch_freed ex_engine = []"
          "clock (version_controller ex_engine) = 100"
    by (simp_all add: ex_engine_def)
  have i: "string_indexed ex_engine r1" "\<not> sorted_indexed ex_engine r1"
          "sorted_indexed ex_engine r2" "\<not> string_indexed ex_engine r2"
          "purge_node ex_engine r2 = Some 2048"
    by (simp_all add: string_indexed_def sorted_indexed_def indexed_record_def purge_node_def
          f t h)
  have sp: "entry_space ex_engine 768 = \<lparr>space_offset = 768, space_size = 64\<rparr>"
           "entry_space ex_engine 1024 = \<lparr>space_offset = 1024, space_size = 192\<rparr>"
           "entry_space ex_engine 512 = \<lparr>space_offset = 512, space_size = 128\<rparr>"
    by (simp_all add: entry_space_def ex_engine_def)
  have ok: "data_ok ex_engine \<lparr>pmem_data_record = 512, newer_version_timestamp = 40\<rparr>"
    "deletes_ok ex_engine [] [r1, r2]"
    by (simp_all add: data_ok_def delete_ok_def indexed_record_def f t h)
  note T = C4_try_clean_all_purges_and_drains[OF o[symmetric] q ds xs refl]
  from T[THEN conjunct1] ok obtain c' where
    r: "TryCleanAll Skiplist_Purge ex_cleaner = Some (Return c')"
    by (auto simp: e)
  note T2 = T[THEN conjunct2, rule_format, OF r]
  have a: "global_old_data_records c' =
             [[\<lparr>pmem_data_record = 640, newer_version_timestamp = 60\<rparr>]]"
          "global_old_delete_records c' =
          [[\<lparr>pmem_delete_record = 1280, delete_newer_version_timestamp = 60,
             hash_entry_ref = 5\<rparr>]]"
    using T2 by simp_all
  have b: "data_entries (kv_engine c') 512 =
          Some \<lparr>meta_type = StringDataRecord, header_record_size = 128, destroyed = True\<rparr>"
        "data_entries (kv_engine c') 640 =
          Some \<lparr>meta_type = SortedDataRecord, header_record_size = 64, destroyed = False\<rparr>"
    using T2 by (simp_all add: e destroyed_in_def ex_engine_def)
  have c: "hash_entries (kv_engine c') 3 = Some CleanerHashEntry_empty"
          "hash_entries (kv_engine c') 4 = Some CleanerHashEntry_empty"
          "hash_entries (kv_engine c') 5 =
             Some \<lparr>offset_type = HashOffsetType_Other 1, index = Some 1280\<rparr>"
    using T2 by (simp_all add: e cleared_in_def indexes_tombstone_def i f h)
  have d: "purge_calls (kv_engine c') = [(1024, Some 2048, False), (1024, Some 2048, True)]"
    using T2 by (simp add: e i f h)
  have g: "batch_freed (kv_engine c') =
          [[\<lparr>space_offset = 896, space_size = 64\<rparr>], [\<lparr>space_offset = 512, space_size = 128\<rparr>]]"
    using T2 by (simp add: e h sp f)
  have k: "pending_free_space_entries c' =
          [\<lparr>entries = [\<lparr>space_offset = 960, space_size = 64\<rparr>], free_ts = 70\<rparr>,
           \<lparr>entries = [\<lparr>space_offset = 768, space_size = 64\<rparr>,
                       \<lparr>space_offset = 1024, space_size = 192\<rparr>], free_ts = 101\<rparr>]"
    using T2 by (simp add: e h sp f)
  define twice where "twice = ex_cleaner\<lparr>thread_cache := [],
               global_old_delete_records := [[r2, r2]]\<rparr>"
  have o2: "OldestSnapshotTS (UpdatedOldestSnapshot
             (snd (GetCurrentTimestamp (version_controller (kv_engine twice))))) = 50"
    using o by (simp add: twice_def)
  have q2: "fetch_thread_caches (thread_cache twice) (global_old_data_records twice)
             (global_old_delete_records twice) = ([], [], [[r2, r2]])"
    by (simp add: twice_def ex_cleaner_def)
  have ds2: "[] = filter (\<lambda>r. newer_version_timestamp r \<le> 50) (concat [])" by simp
  have xs2: "[r2, r2] = filter (\<lambda>r. delete_newer_version_timestamp r \<le> 50) (concat [[r2, r2]])"
    by (simp add: r2_def)
  have "\<not> deletes_ok (kv_engine twice) [] [r2, r2]"
    by (simp add: twice_def e indexes_tombstone_def i f t)
  with C4_try_clean_all_purges_and_drains[OF o2[symmetric] q2 ds2 xs2 refl, THEN conjunct1]
  have n: "\<not> (\<exists>c'. TryCleanAll Skiplist_Purge twice = Some (Return c'))" by simp
  have "\<exists>c'. TryCleanAll Skiplist_Purge ex_cleaner = Some (Return c') \<and>
        global_old_data_records c' =
          [[\<lparr>pmem_data_record = 640, newer_version_timestamp = 60\<rparr>]] \<and>
        global_old_delete_records c' =
          [[\<lparr>pmem_delete_record = 1280, delete_newer_version_timestamp = 60,
             hash_entry_ref = 5\<rparr>]] \<and>
        data_entries (kv_engine c') 512 =
          Some \<lparr>meta_type = StringDataRecord, header_record_size = 128, destroyed = True\<rparr> \<and>
        data_entries (kv_engine c') 640 =
          Some \<lparr>meta_type = SortedDataRecord, header_record_size = 64, destroyed = False\<rparr> \<and>
        hash_entries (kv_engine c') 3 = Some CleanerHashEntry_empty \<and>
        hash_entries (kv_engine c') 4 = Some CleanerHashEntry_empty \<and>
        hash_entries (kv_engine c') 5 =
          Some \<lparr>offset_type = HashOffsetType_Other 1, index = Some 1280\<rparr> \<and>
        purge_calls (kv_engine c') = [(1024, Some 2048, False), (1024, Some 2048, True)] \<and>
        batch_freed (kv_engine c') =
          [[\<lparr>space_offset = 896, space_size = 64\<rparr>], [\<lparr>space_offset = 512, space_size = 128\<rparr>]] \<and>
        pending_free_space_entries c' =
          [\<lparr>entries = [\<lparr>space_offset = 960, space_size = 64\<rparr>], free_ts = 70\<rparr>,
           \<lparr>entries = [\<lparr>space_offset = 768, space_size = 64\<rparr>,
                       \<lparr>space_offset = 1024, space_size = 192\<rparr>], free_ts = 101\<rparr>]"
    by (rule exI[of _ c']) (intro conjI r a b c d g k)
  with n show ?thesis unfolding twice_def r2_def by blast
qed

text \<open>
  C5. When the allocator answers with a zero-sized grant, PrepareWrite (on a path that needs
  space) and Modify (in its write and delete branches) return MemoryOverflow; no record is
  written, and the list, the index and the size are as before.
\<close>

theorem C5_zero_grant_is_memory_overflow_without_effect:
  assumes z: "next_grant_empty hl"
  shows "(args_hlist args = self hl \<and>
          (kvdk_assert_on bld \<longrightarrow> args_op args = WriteOp_Put \<or> args_value args = []) \<and>
          lr = Lookup (args_op args \<noteq> WriteOp_Delete) (hash_table hl)
                 (InternalKey hl (args_key args)) HashElem \<and>
          ((lookup_s lr = NotFound \<and> args_op args = WriteOp_Put) \<or>
           (lookup_s lr = Ok \<and>
            \<not> (args_op args = WriteOp_Delete \<and> entry_status (entry lr) = Outdated))) \<longrightarrow>
          (\<exists>args' hl'. PrepareWrite bld hl args ts = Return (MemoryOverflow, args', hl') \<and>
                       same_collection hl hl')) \<and>
         (lr' = Lookup True (hash_table hl) (InternalKey hl k) HashElem \<and> resolved hl lr' \<and>
          (fst (modify_func (existing_value hl lr')) = ModifyOperation_Write \<or>
           fst (modify_func (existing_value hl lr')) = ModifyOperation_Delete) \<longrightarrow>
          (\<exists>ret hl'. Modify bld rnd hl k modify_func ts = Some (Return (ret, hl')) \<and>
                      wr_s ret = MemoryOverflow \<and> write_record ret = None \<and>
                      same_collection hl hl'))"
  using PrepareWrite_zero_grant[OF z, where args = args and bld = bld and lr = lr and ts = ts]
        Modify_zero_grant[OF z, where lr = lr' and k = k and modify_func = modify_func
                            and bld = bld and rnd = rnd and ts = ts]
  by blast

text \<open>A put and a modify-delete of \<open>a\<close> on the collection whose allocator is exhausted.\<close>

theorem C5_witness:
  "(\<exists>args' hl'. PrepareWrite ex_build ex_hl_full (InitWriteArgs ex_hl_full ''a'' ''2'' WriteOp_Put) 50
                  = Return (MemoryOverflow, args', hl') \<and> same_collection ex_hl_full hl') \<and>
   (\<exists>ret hl'. Modify ex_build 0 ex_hl_full ''a'' (\<lambda>v. (ModifyOperation_Delete, [])) 50
                  = Some (Return (ret, hl')) \<and>
               wr_s ret = MemoryOverflow \<and> write_record ret = None \<and>
               same_collection ex_hl_full hl')"
proof -
  have z: "next_grant_empty ex_hl_full" by (simp add: next_grant_empty_def ex_hl_full_def)
  have f: "hash_table ex_hl_full = ex_table" "InternalKey ex_hl_full k = EncodeID 1 @ k"
    "self ex_hl_full = 7" "pmem ex_hl_full = ex_pmem" for k
    by (simp_all add: ex_hl_full_def ex_fields InternalKey_def) (simp add: ex_hl_def)
  show ?thesis
    using C5_zero_grant_is_memory_overflow_without_effect[OF z,
            where args = "InitWriteArgs ex_hl_full ''a'' ''2'' WriteOp_Put" and bld = ex_build
              and ts = 50 and k = "''a''" and rnd = 0
              and modify_func = "\<lambda>v. (ModifyOperation_Delete, [])"
              and lr = "Lookup True ex_table (EncodeID 1 @ ''a'') HashElem"
              and lr' = "Lookup True ex_table (EncodeID 1 @ ''a'') HashElem"]
    by (simp add: f InitWriteArgs_def ex_lookup_a resolved_def found_record_def ex_pmem_at)
qed

text \<open>
  C6 (amended). Arguments bound to another collection make Write return InvalidArgument
  and leave the collection as it is, the call log included, so nothing was looked up,
  inserted, allocated or written. PrepareWrite does the same, returning the arguments as
  they were, except in a build with \<^verbatim>\<open>kvdk_assert\<close> for a delete that carries a value: its
  first assertion then stops the process before the owner of the arguments is looked at.
\<close>

theorem C6_foreign_args_are_rejected_without_effect:
  assumes "args_hlist args \<noteq> self hl"
  shows "Write bld rnd hl args =
           Some (Return (WriteResult_default\<lparr>wr_s := InvalidArgument\<rparr>, hl)) \<and>
         PrepareWrite bld hl args ts =
           (if kvdk_assert_on bld \<and> args_op args = WriteOp_Delete \<and> args_value args \<noteq> []
            then Crash [] else Return (InvalidArgument, args, hl))"
  using assms by (cases "args_op args") (auto simp: PrepareWrite_def Write_def)

text \<open>
  Arguments of the example collection, rebound to collection 8: a delete, a put, and a
  delete that carries a value in a build without assertions.
\<close>

theorem C6_witness:
  "PrepareWrite ex_build ex_hl ((InitWriteArgs ex_hl ''a'' [] WriteOp_Delete)\<lparr>args_hlist := 8\<rparr>) 50
     = Return (InvalidArgument, (InitWriteArgs ex_hl ''a'' [] WriteOp_Delete)\<lparr>args_hlist := 8\<rparr>,
               ex_hl) \<and>
   Write ex_build 0 ex_hl ((InitWriteArgs ex_hl ''a'' [] WriteOp_Delete)\<lparr>args_hlist := 8\<rparr>)
     = Some (Return (WriteResult_default\<lparr>wr_s := InvalidArgument\<rparr>, ex_hl)) \<and>
   PrepareWrite ex_build ex_hl ((InitWriteArgs ex_hl ''a'' ''x'' WriteOp_Put)\<lparr>args_hlist := 8\<rparr>) 50
     = Return (InvalidArgument, (InitWriteArgs ex_hl ''a'' ''x'' WriteOp_Put)\<lparr>args_hlist := 8\<rparr>,
               ex_hl) \<and>
   PrepareWrite ex_release ex_hl
       ((InitWriteArgs ex_hl ''a'' ''x'' WriteOp_Delete)\<lparr>args_hlist := 8\<rparr>) 50
     = Return (InvalidArgument, (InitWriteArgs ex_hl ''a'' ''x'' WriteOp_Delete)\<lparr>args_hlist := 8\<rparr>,
               ex_hl) \<and>
   Write ex_build 0 ex_hl ((InitWriteArgs ex_hl ''a'' ''x'' WriteOp_Delete)\<lparr>args_hlist := 8\<rparr>)
     = Some (Return (WriteResult_default\<lparr>wr_s := InvalidArgument\<rparr>, ex_hl))"
  using C6_foreign_args_are_rejected_without_effect
          [where args = "(InitWriteArgs ex_hl ''a'' [] WriteOp_Delete)\<lparr>args_hlist := 8\<rparr>"
             and hl = ex_hl and bld = ex_build and ts = 50 and rnd = 0]
        C6_foreign_args_are_rejected_without_effect
          [where args = "(InitWriteArgs ex_hl ''a'' ''x'' WriteOp_Put)\<lparr>args_hlist := 8\<rparr>"
             and hl = ex_hl and bld = ex_build and ts = 50 and rnd = 0]
        C6_foreign_args_are_rejected_without_effect
          [where args = "(InitWriteArgs ex_hl ''a'' ''x'' WriteOp_Delete)\<lparr>args_hlist := 8\<rparr>"
             and hl = ex_hl and bld = ex_release and ts = 50 and rnd = 0]
        C6_foreign_args_are_rejected_without_effect
          [where args = "(InitWriteArgs ex_hl ''a'' ''x'' WriteOp_Delete)\<lparr>args_hlist := 8\<rparr>"
             and hl = ex_hl and bld = ex_build and ts = 50 and rnd = 0]
  by (simp add: InitWriteArgs_def ex_fields ex_release_def)

text \<open>
  C6 as stated fails for PrepareWrite in a build with \<^verbatim>\<open>kvdk_assert\<close>: for a delete that
  carries a value and is bound to collection 8, the process stops and InvalidArgument is
  not returned.
\<close>

theorem C6_counterexample:
  "args_hlist ((InitWriteArgs ex_hl ''a'' ''x'' WriteOp_Delete)\<lparr>args_hlist := 8\<rparr>) \<noteq> self ex_hl \<and>
   PrepareWrite ex_build ex_hl
       ((InitWriteArgs ex_hl ''a'' ''x'' WriteOp_Delete)\<lparr>args_hlist := 8\<rparr>) 50 = Crash []"
  by (simp add: PrepareWrite_def InitWriteArgs_def ex_build_def ex_fields)

text \<open>
  C7. Take a write into fresh space. It runs to its end exactly when its arguments are bound
  to another collection, in which case it performs no operation, or it is ready
  (\<open>write_ready\<close>). When it does, the existing record it reports is the one its prepared
  arguments held, and with the status that record had before the write: the size grows by
  one exactly when the operation is a put whose existing record was absent or outdated, it
  shrinks by one exactly when the operation is a delete whose existing record was live, and
  otherwise it stays. The counter is unsigned and wraps around.
\<close>

theorem C7_write_size_change:
  assumes fresh: "pmem hl (space_offset (args_space args)) = None"
  shows "((\<exists>ret hl'. Write bld rnd hl args = Some (Return (ret, hl'))) =
            (operation hl args = None \<or> write_ready bld hl args)) \<and>
         (Write bld rnd hl args = Some (Return (ret, hl')) \<longrightarrow>
            existing_record ret = (if operation hl args = None then None else existing_of args) \<and>
            ((list_size hl' = list_size hl + 1) =
               (operation hl args = Some WriteOp_Put \<and>
                (existing_of args = None \<or>
                 (\<exists>e r. existing_of args = Some e \<and> pmem hl e = Some r \<and>
                        record_status r = Outdated)))) \<and>
            ((list_size hl' = list_size hl - 1) =
               (operation hl args = Some WriteOp_Delete \<and>
                (\<exists>e r. existing_of args = Some e \<and> pmem hl e = Some r \<and>
                       record_status r = Normal))) \<and>
            (list_size hl' = list_size hl + 1 \<or> list_size hl' = list_size hl - 1 \<or>
             list_size hl' = list_size hl))"
proof (cases "args_hlist args = self hl")
  case bound: True
  then have opn: "operation hl args = Some (args_op args)" by (simp add: operation_def)
  have a: "(\<exists>ret hl'. Write bld rnd hl args = Some (Return (ret, hl'))) =
            (operation hl args = None \<or> write_ready bld hl args)"
    using Write_ready_returns[OF _ bound fresh, of bld rnd] Write_returns_ready[OF _ bound fresh]
    by (auto simp: opn)
  have b: "existing_record ret = (if operation hl args = None then None else existing_of args) \<and>
            ((list_size hl' = list_size hl + 1) =
               (operation hl args = Some WriteOp_Put \<and>
                (existing_of args = None \<or>
                 (\<exists>e r. existing_of args = Some e \<and> pmem hl e = Some r \<and>
                        record_status r = Outdated)))) \<and>
            ((list_size hl' = list_size hl - 1) =
               (operation hl args = Some WriteOp_Delete \<and>
                (\<exists>e r. existing_of args = Some e \<and> pmem hl e = Some r \<and>
                       record_status r = Normal))) \<and>
            (list_size hl' = list_size hl + 1 \<or> list_size hl' = list_size hl - 1 \<or>
             list_size hl' = list_size hl)"
    if w: "Write bld rnd hl args = Some (Return (ret, hl'))"
    unfolding opn
    using Write_existing_of[OF w bound] Write_size_of[OF w bound fresh] by simp
  from a b show ?thesis by blast
next
  case False
  then have opn: "operation hl args = None" by (simp add: operation_def)
  have w: "Write bld rnd hl args = Some (Return (WriteResult_default\<lparr>wr_s := InvalidArgument\<rparr>, hl))"
    using False by (simp add: Write_def)
  show ?thesis
    unfolding opn w using word64_step[of "list_size hl"]
    by (auto simp: WriteResult_default_def)
qed

text \<open>
  On the example collection of size 1: the put over the tombstone \<open>b\<close> and the put of the
  new key \<open>c\<close> take the size to 2, the put over the live \<open>a\<close> leaves it at 1, the delete of
  \<open>a\<close> takes it to 0; the put of \<open>c\<close> with arguments bound to collection 8 leaves it at 1; a
  delete whose index entry holds no record does not return.
\<close>

theorem C7_witness:
  "(\<exists>ret hl'. Write ex_build 0 ex_hl ex_put_b = Some (Return (ret, hl')) \<and>
      existing_record ret = Some 192 \<and> list_size hl' = 2) \<and>
   (\<exists>ret hl'. Write ex_build 0 ex_hl ex_put_c = Some (Return (ret, hl')) \<and>
      existing_record ret = None \<and> list_size hl' = 2) \<and>
   (\<exists>ret hl'. Write ex_build 0 ex_hl ex_put_a = Some (Return (ret, hl')) \<and>
      existing_record ret = Some 128 \<and> list_size hl' = 1) \<and>
   (\<exists>ret hl'. Write ex_build 0 ex_hl ex_delete_a = Some (Return (ret, hl')) \<and>
      existing_record ret = Some 128 \<and> list_size hl' = 0) \<and>
   (\<exists>ret hl'. Write ex_build 0 ex_hl (ex_put_c\<lparr>args_hlist := 8\<rparr>) = Some (Return (ret, hl')) \<and>
      existing_record ret = None \<and> list_size hl' = 1) \<and>
   \<not> (\<exists>ret hl'. Write ex_build 0 ex_hl
         (ex_delete_a\<lparr>args_lookup_result := Lookup False ex_table (EncodeID 1 @ ''c'') HashElem\<rparr>)
         = Some (Return (ret, hl')))"
proof -
  have l: "Lookup False ex_table (EncodeID 1 @ ''c'') HashElem =
             \<lparr>lookup_s = NotFound, entry_ptr = None, entry = HashEntry_empty\<rparr>"
    by (simp add: Lookup_def ex_table_def)
  have f: "args_hlist ex_put_b = self ex_hl" "args_op ex_put_b = WriteOp_Put"
    "args_space ex_put_b = \<lparr>space_offset = 256, space_size = 128\<rparr>" "args_ts ex_put_b = 40"
    "args_lookup_result ex_put_b = Lookup True ex_table (EncodeID 1 @ ''b'') HashElem"
    "args_hlist ex_put_c = self ex_hl" "args_op ex_put_c = WriteOp_Put"
    "args_space ex_put_c = \<lparr>space_offset = 256, space_size = 128\<rparr>" "args_ts ex_put_c = 40"
    "args_lookup_result ex_put_c = Lookup True ex_table (EncodeID 1 @ ''c'') HashElem"
    "args_hlist ex_put_a = self ex_hl" "args_op ex_put_a = WriteOp_Put"
    "args_space ex_put_a = \<lparr>space_offset = 256, space_size = 128\<rparr>" "args_ts ex_put_a = 40"
    "args_lookup_result ex_put_a = Lookup True ex_table (EncodeID 1 @ ''a'') HashElem"
    "args_hlist ex_delete_a = self ex_hl" "args_op ex_delete_a = WriteOp_Delete"
    "args_space ex_delete_a = \<lparr>space_offset = 256, space_size = 128\<rparr>" "args_ts ex_delete_a = 40"
    "args_lookup_result ex_delete_a = Lookup False ex_table (EncodeID 1 @ ''a'') HashElem"
    "args_key ex_delete_a = ''a''"
    by (simp_all add: ex_put_b_def ex_put_c_def ex_put_a_def ex_delete_a_def InitWriteArgs_def)
  have opn: "operation ex_hl ex_put_b = Some WriteOp_Put" "operation ex_hl ex_put_c = Some WriteOp_Put"
    "operation ex_hl ex_put_a = Some WriteOp_Put" "operation ex_hl ex_delete_a = Some WriteOp_Delete"
    "operation ex_hl (ex_put_c\<lparr>args_hlist := 8\<rparr>) = None"
    "operation ex_hl (ex_delete_a\<lparr>args_lookup_result :=
        Lookup False ex_table (EncodeID 1 @ ''c'') HashElem\<rparr>) = Some WriteOp_Delete"
    by (simp_all add: operation_def f ex_fields)
  have e: "existing_of ex_put_b = Some 192" "existing_of ex_put_c = None"
    "existing_of ex_put_a = Some 128" "existing_of ex_delete_a = Some 128"
    by (simp_all add: existing_of_def f ex_lookup_a ex_lookup_b ex_lookup_c)
  have s: "record_status ex_a = Normal" "record_status ex_b = Outdated"
    "timestamp ex_a = 10" "timestamp ex_b = 20"
    by (simp_all add: ex_a_def ex_b_def ConstructDLRecord_def)
  have r: "write_ready ex_build ex_hl ex_put_b" "write_ready ex_build ex_hl ex_put_c"
    "write_ready ex_build ex_hl ex_put_a" "write_ready ex_build ex_hl ex_delete_a"
    by (simp_all add: write_ready_def Let_def e f ex_lookup_a ex_lookup_b ex_lookup_c ex_fields
          ex_pmem_at ex_linked s ex_build_def ex_RecordSize)
  have n: "\<not> write_ready ex_build ex_hl
         (ex_delete_a\<lparr>args_lookup_result := Lookup False ex_table (EncodeID 1 @ ''c'') HashElem\<rparr>)"
    by (simp add: write_ready_def Let_def l)
  have fr: "pmem ex_hl (space_offset (args_space ex_put_b)) = None"
    "pmem ex_hl (space_offset (args_space ex_put_c)) = None"
    "pmem ex_hl (space_offset (args_space ex_put_a)) = None"
    "pmem ex_hl (space_offset (args_space ex_delete_a)) = None"
    "pmem ex_hl (space_offset (args_space (ex_put_c\<lparr>args_hlist := 8\<rparr>))) = None"
    "pmem ex_hl (space_offset (args_space (ex_delete_a\<lparr>args_lookup_result :=
        Lookup False ex_table (EncodeID 1 @ ''c'') HashElem\<rparr>))) = None"
    by (simp_all add: f ex_fields ex_pmem_at)
  note B = C7_write_size_change[where bld = ex_build and rnd = 0, OF fr(1)]
  note C = C7_write_size_change[where bld = ex_build and rnd = 0, OF fr(2)]
  note A = C7_write_size_change[where bld = ex_build and rnd = 0, OF fr(3)]
  note D = C7_write_size_change[where bld = ex_build and rnd = 0, OF fr(4)]
  note F = C7_write_size_change[where bld = ex_build and rnd = 0, OF fr(5)]
  note N = C7_write_size_change[where bld = ex_build and rnd = 0, OF fr(6)]
  have 1: "\<exists>ret hl'. Write ex_build 0 ex_hl ex_put_b = Some (Return (ret, hl')) \<and>
      existing_record ret = Some 192 \<and> list_size hl' = 2"
  proof -
    from B[THEN conjunct1] r(1) obtain ret hl' where
      w: "Write ex_build 0 ex_hl ex_put_b = Some (Return (ret, hl'))" by blast
    from B[THEN conjunct2, rule_format, OF w]
    have "existing_record ret = Some 192 \<and> list_size hl' = 2"
      by (simp add: opn e ex_fields ex_pmem_at s)
    with w show ?thesis by blast
  qed
  have 2: "\<exists>ret hl'. Write ex_build 0 ex_hl ex_put_c = Some (Return (ret, hl')) \<and>
      existing_record ret = None \<and> list_size hl' = 2"
  proof -
    from C[THEN conjunct1] r(2) obtain ret hl' where
      w: "Write ex_build 0 ex_hl ex_put_c = Some (Return (ret, hl'))" by blast
    from C[THEN conjunct2, rule_format, OF w]
    have "existing_record ret = None \<and> list_size hl' = 2"
      by (simp add: opn e ex_fields ex_pmem_at s)
    with w show ?thesis by blast
  qed
  have 3: "\<exists>ret hl'. Write ex_build 0 ex_hl ex_put_a = Some (Return (ret, hl')) \<and>
      existing_record ret = Some 128 \<and> list_size hl' = 1"
  proof -
    from A[THEN conjunct1] r(3) obtain ret hl' where
      w: "Write ex_build 0 ex_hl ex_put_a = Some (Return (ret, hl'))" by blast
    from A[THEN conjunct2, rule_format, OF w]
    have "existing_record ret = Some 128 \<and> list_size hl' = 1"
      by (auto simp: opn e ex_fields ex_pmem_at s)
    with w show ?thesis by blast
  qed
  have 4: "\<exists>ret hl'. Write ex_build 0 ex_hl ex_delete_a = Some (Return (ret, hl')) \<and>
      existing_record ret = Some 128 \<and> list_size hl' = 0"
  proof -
    from D[THEN conjunct1] r(4) obtain ret hl' where
      w: "Write ex_build 0 ex_hl ex_delete_a = Some (Return (ret, hl'))" by blast
    from D[THEN conjunct2, rule_format, OF w]
    have "existing_record ret = Some 128 \<and> list_size hl' = 0"
      by (simp add: opn e ex_fields ex_pmem_at s)
    with w show ?thesis by blast
  qed
  have 5: "\<exists>ret hl'. Write ex_build 0 ex_hl (ex_put_c\<lparr>args_hlist := 8\<rparr>) = Some (Return (ret, hl')) \<and>
      existing_record ret = None \<and> list_size hl' = 1"
  proof -
    from F[THEN conjunct1] opn(5) obtain ret hl' where
      w: "Write ex_build 0 ex_hl (ex_put_c\<lparr>args_hlist := 8\<rparr>) = Some (Return (ret, hl'))" by blast
    from F[THEN conjunct2, rule_format, OF w]
    have "existing_record ret = None \<and> list_size hl' = 1"
      by (auto simp: opn ex_fields)
    with w show ?thesis by blast
  qed
  have 6: "\<not> (\<exists>ret hl'. Write ex_build 0 ex_hl
         (ex_delete_a\<lparr>args_lookup_result := Lookup False ex_table (EncodeID 1 @ ''c'') HashElem\<rparr>)
         = Some (Return (ret, hl')))"
    using N[THEN conjunct1] n opn(6) by simp
  from 1 2 3 4 5 6 show ?thesis by blast
qed



text \<open>
  C9 (amended). On a record type that is not one of the expected ones, \<^verbatim>\<open>purgeOldDataRecord\<close>
  and \<^verbatim>\<open>purgeOldDeleteRecord\<close> abort the process, without a line in the log; \<^verbatim>\<open>FetchID\<close>
  logs an error and then stops when \<^verbatim>\<open>kvdk_assert\<close> is compiled in, and returns 0 when it is
  not.
\<close>

theorem C9_unknown_record_types:
  "(data_entries eng (pmem_data_record odr) = Some de \<and>
    meta_type de \<noteq> StringDataRecord \<and> meta_type de \<noteq> SortedDataRecord \<longrightarrow>
      purgeOldDataRecord eng odr = Crash []) \<and>
   (data_entries eng (pmem_delete_record oxr) = Some de' \<and>
    meta_type de' \<noteq> StringDeleteRecord \<and> meta_type de' \<noteq> SortedDeleteRecord \<longrightarrow>
      purgeOldDeleteRecord P eng oxr = Some (Crash [])) \<and>
   (record_type r \<noteq> HashElem \<and> record_type r \<noteq> HashHeader \<longrightarrow>
      FetchID bld (Some r) =
        (if kvdk_assert_on bld then Crash [''Wrong record type %u in HashListID'']
         else Return ([''Wrong record type %u in HashListID''], 0)))"
  using purgeOldDataRecord_other purgeOldDeleteRecord_other FetchID_other by blast

text \<open>The three functions on an element record, respectively on a sorted record.\<close>

theorem C9_witness:
  "purgeOldDataRecord ex_engine \<lparr>pmem_data_record = 832, newer_version_timestamp = 40\<rparr> = Crash [] \<and>
   purgeOldDeleteRecord Skiplist_Purge ex_engine
     \<lparr>pmem_delete_record = 832, delete_newer_version_timestamp = 40, hash_entry_ref = 3\<rparr>
     = Some (Crash []) \<and>
   FetchID ex_build (Some (ex_a\<lparr>record_type := SortedDataRecord\<rparr>)) =
     Crash [''Wrong record type %u in HashListID'']"
  using C9_unknown_record_types[where eng = ex_engine
          and odr = "\<lparr>pmem_data_record = 832, newer_version_timestamp = 40\<rparr>"
          and oxr = "\<lparr>pmem_delete_record = 832, delete_newer_version_timestamp = 40,
                      hash_entry_ref = 3\<rparr>"
          and de = "\<lparr>meta_type = HashElem, header_record_size = 64, destroyed = False\<rparr>"
          and de' = "\<lparr>meta_type = HashElem, header_record_size = 64, destroyed = False\<rparr>"
          and P = Skiplist_Purge and r = "ex_a\<lparr>record_type := SortedDataRecord\<rparr>"
          and bld = ex_build]
  by (simp add: ex_engine_def ex_build_def)

text \<open>
  C9 as stated fails for \<^verbatim>\<open>FetchID\<close> in a build without \<^verbatim>\<open>kvdk_assert\<close>: it logs and
  returns 0.
\<close>

theorem C9_counterexample:
  "FetchID ex_release (Some (ex_a\<lparr>record_type := SortedDataRecord\<rparr>)) =
     Return ([''Wrong record type %u in HashListID''], 0)"
  by (simp add: FetchID_def ex_release_def)

text \<open>
  C10. When the lookup of Modify resolves (a miss, or a hit on a record of the arena) and
  the transformer answers Noop, Modify returns \<open>Ok\<close> with a null write record; the
  collection is as before and the only call made is the lookup.
\<close>

theorem C10_modify_noop_writes_nothing:
  assumes lr: "lr = Lookup True (hash_table hl) (InternalKey hl k) HashElem"
      and res: "resolved hl lr"
      and noop: "fst (modify_func (existing_value hl lr)) = ModifyOperation_Noop"
  shows "Modify bld rnd hl k modify_func ts =
           Some (Return (WriteResult_default\<lparr>existing_record :=
                            (if lookup_s lr = Ok then index_ptr (entry lr) else None)\<rparr>,
                         hl\<lparr>calls := calls hl @ [Call_Lookup True (InternalKey hl k) HashElem]\<rparr>))"
proof -
  obtain nv where mf: "modify_func (existing_value hl lr) = (ModifyOperation_Noop, nv)"
    using noop by (cases "modify_func (existing_value hl lr)") auto
  show ?thesis
  proof (cases "lookup_s lr = Ok")
    case True
    with res obtain e r where e: "index_ptr (entry lr) = Some e" and r: "pmem hl e = Some r"
      by (auto simp: resolved_def found_record_def split: option.splits)
    have ev: "existing_value hl lr = (if record_status r \<noteq> Outdated then Some (Value r) else None)"
      using True e r by (simp add: existing_value_def found_record_def)
    show ?thesis
      using True e r mf ev lr
      by (auto simp: Modify_def hash_lookup_def Let_def WriteResult_default_def)
  next
    case False
    with res have nf: "lookup_s lr = NotFound" by (simp add: resolved_def)
    have ev: "existing_value hl lr = None"
      using False by (simp add: existing_value_def found_record_def)
    show ?thesis
      using False nf mf ev lr
      by (auto simp: Modify_def hash_lookup_def Let_def WriteResult_default_def)
  qed
qed

text \<open>A modify of \<open>a\<close> with a transformer that always answers Noop.\<close>

theorem C10_witness:
  "Modify ex_build 0 ex_hl ''a'' (\<lambda>v. (ModifyOperation_Noop, [])) 50 =
     Some (Return (WriteResult_default\<lparr>existing_record := Some 128\<rparr>,
                   ex_hl\<lparr>calls := [Call_Lookup True (EncodeID 1 @ ''a'') HashElem]\<rparr>))"
  using C10_modify_noop_writes_nothing[OF refl, where hl = ex_hl and k = "''a''"
          and modify_func = "\<lambda>v. (ModifyOperation_Noop, [])" and bld = ex_build and rnd = 0
          and ts = 50]
  by (simp add: ex_fields ex_lookup_a resolved_def found_record_def ex_pmem_at)

end
